theory Spec2Isabelle
  imports Main
begin

section \<open>Python strings\<close>

text \<open>
  A Python \<open>str\<close> is a sequence of Unicode code points, so a \<open>str\<close> is a list of code
  points and \<open>len\<close> is \<open>length\<close>. A literal of the source is written
  \<open>ascii ''...''\<close>; the bullet U+2022 of the source is the code point 8226.
\<close>

type_synonym str = "nat list"

definition ascii :: "string \<Rightarrow> str" where
  "ascii = map of_char"

text \<open>
  The character classes of \<open>re\<close> and \<open>str\<close> come from the interpreter's Unicode
  database, which is not part of the repository. Below 128 the classes are written out
  as CPython has them; from 128 on they are read from a parameter \<open>U\<close>:
  \<^item> \<open>uni_space\<close>: \<open>str.isspace\<close>, the class of \<open>\s\<close> and of \<open>str.strip()\<close>;
  \<^item> \<open>uni_decimal\<close>: the value of a decimal digit, the class of \<open>\d\<close> and what
    \<open>int()\<close> reads;
  \<^item> \<open>uni_alnum\<close>: \<open>str.isalnum\<close>, the class of \<open>\w\<close> (with the underscore);
  \<^item> \<open>uni_lower_full\<close>: the code points \<open>str.lower()\<close> writes for a code point,
    given the text seen so far and the text after it (the capital sigma depends on both);
  \<^item> \<open>uni_tolower\<close>: the simple lower-case mapping that \<open>re.IGNORECASE\<close> compares with.
\<close>

record unicode =
  uni_space :: "nat \<Rightarrow> bool"
  uni_decimal :: "nat \<Rightarrow> nat option"
  uni_alnum :: "nat \<Rightarrow> bool"
  uni_lower_full :: "str \<Rightarrow> nat \<Rightarrow> str \<Rightarrow> str"
  uni_tolower :: "nat \<Rightarrow> nat"

text \<open>A database that knows nothing above ASCII, for evaluating on concrete texts.\<close>

definition ascii_only :: unicode where
  "ascii_only = \<lparr> uni_space = (\<lambda>c. False), uni_decimal = (\<lambda>c. None),
     uni_alnum = (\<lambda>c. False), uni_lower_full = (\<lambda>seen c after. [c]),
     uni_tolower = (\<lambda>c. c) \<rparr>"

definition is_space :: "unicode \<Rightarrow> nat \<Rightarrow> bool" where
  "is_space U c =
     (if c < 128 then (9 \<le> c \<and> c \<le> 13) \<or> (28 \<le> c \<and> c \<le> 32) else uni_space U c)"

definition digit_value :: "unicode \<Rightarrow> nat \<Rightarrow> nat option" where
  "digit_value U c =
     (if c < 128 then (if 48 \<le> c \<and> c \<le> 57 then Some (c - 48) else None)
      else uni_decimal U c)"

definition is_digit :: "unicode \<Rightarrow> nat \<Rightarrow> bool" where
  "is_digit U c = (digit_value U c \<noteq> None)"

definition is_word :: "unicode \<Rightarrow> nat \<Rightarrow> bool" where
  "is_word U c =
     (if c < 128
      then (48 \<le> c \<and> c \<le> 57) \<or> (65 \<le> c \<and> c \<le> 90) \<or> c = 95 \<or> (97 \<le> c \<and> c \<le> 122)
      else uni_alnum U c)"

definition ascii_lower :: "nat \<Rightarrow> nat" where
  "ascii_lower c = (if 65 \<le> c \<and> c \<le> 90 then c + 32 else c)"

text \<open>\<open>str.lower()\<close>: the second argument is the text already passed.\<close>

fun lower_from :: "unicode \<Rightarrow> str \<Rightarrow> str \<Rightarrow> str" where
  "lower_from U seen [] = []"
| "lower_from U seen (c # cs) =
     (if c < 128 then [ascii_lower c] else uni_lower_full U seen c cs)
       @ lower_from U (seen @ [c]) cs"

definition lower :: "unicode \<Rightarrow> str \<Rightarrow> str" where
  "lower U t = lower_from U [] t"

text \<open>\<open>re\<close>'s case folding of one code point (\<open>sre_lower_unicode\<close>).\<close>

definition sre_lower :: "unicode \<Rightarrow> nat \<Rightarrow> nat" where
  "sre_lower U c = (if c < 128 then ascii_lower c else uni_tolower U c)"

text \<open>\<open>str.strip()\<close> with no argument.\<close>

definition lstrip :: "unicode \<Rightarrow> str \<Rightarrow> str" where
  "lstrip U t = dropWhile (is_space U) t"

definition rstrip :: "unicode \<Rightarrow> str \<Rightarrow> str" where
  "rstrip U t = rev (dropWhile (is_space U) (rev t))"

definition strip :: "unicode \<Rightarrow> str \<Rightarrow> str" where
  "strip U t = rstrip U (lstrip U t)"

text \<open>\<open>sub in t\<close> on strings.\<close>

fun contains :: "str \<Rightarrow> str \<Rightarrow> bool" where
  "contains [] sub = (sub = [])"
| "contains (c # cs) sub = (take (length sub) (c # cs) = sub \<or> contains cs sub)"

text \<open>\<open>t.split('\n')\<close>: never empty, the empty text gives one empty line.\<close>

fun split_lines :: "str \<Rightarrow> str list" where
  "split_lines [] = [[]]"
| "split_lines (c # cs) =
     (if c = 10 then [] # split_lines cs
      else (case split_lines cs of
              l # ls \<Rightarrow> (c # l) # ls
            | [] \<Rightarrow> [[c]]))"

text \<open>\<open>'\n'.join(ls)\<close>.\<close>

fun join_lines :: "str list \<Rightarrow> str" where
  "join_lines [] = []"
| "join_lines [l] = l"
| "join_lines (l # ls) = l @ 10 # join_lines ls"

text \<open>\<open>int(t)\<close> on a text of decimal digits, most significant first.\<close>

definition int_of_digits :: "unicode \<Rightarrow> str \<Rightarrow> nat" where
  "int_of_digits U t =
     foldl (\<lambda>n c. 10 * n + (case digit_value U c of Some d \<Rightarrow> d | None \<Rightarrow> 0)) 0 t"

section \<open>Score extraction (\<open>rag_core.py\<close>, \<open>calculate_match_score\<close>)\<close>

text \<open>
  Both patterns are one to three digits, captured, and then a fixed tail. At one start
  position the greedy \<open>\d{1,3}\<close> takes three digits first and gives one back at a time;
  the first count whose tail matches is the match. \<open>re.search\<close> returns the match at
  the leftmost start position that has one.
\<close>

definition match_here :: "unicode \<Rightarrow> (str \<Rightarrow> bool) \<Rightarrow> str \<Rightarrow> nat option" where
  "match_here U tail t =
     (case filter (\<lambda>n. n \<le> length t \<and> list_all (is_digit U) (take n t) \<and> tail (drop n t))
             [3, 2, 1] of
        [] \<Rightarrow> None
      | n # _ \<Rightarrow> Some (int_of_digits U (take n t)))"

fun re_search :: "unicode \<Rightarrow> (str \<Rightarrow> bool) \<Rightarrow> str \<Rightarrow> nat option" where
  "re_search U tail [] = None"
| "re_search U tail (c # cs) =
     (case match_here U tail (c # cs) of
        Some n \<Rightarrow> Some n
      | None \<Rightarrow> re_search U tail cs)"

text \<open>The tail \<open>%\<close>.\<close>

definition percent_tail :: "str \<Rightarrow> bool" where
  "percent_tail t = (take 1 t = [37])"

text \<open>
  The tail \<open> out of 100\<close> under \<open>re.IGNORECASE\<close>: a cased literal of the pattern is
  compared with the folded code point of the text, an uncased one with the code point.
\<close>

definition literal_ignorecase :: "unicode \<Rightarrow> nat \<Rightarrow> nat \<Rightarrow> bool" where
  "literal_ignorecase U p c =
     (if (65 \<le> p \<and> p \<le> 90) \<or> (97 \<le> p \<and> p \<le> 122) then sre_lower U c = ascii_lower p
      else c = p)"

definition out_of_100_tail :: "unicode \<Rightarrow> str \<Rightarrow> bool" where
  "out_of_100_tail U t =
     (let p = ascii '' out of 100'' in
      length p \<le> length t \<and> list_all2 (literal_ignorecase U) p (take (length p) t))"

definition calculate_match_score :: "unicode \<Rightarrow> str \<Rightarrow> int" where
  "calculate_match_score U analysis =
     (if analysis = [] then 0
      else case re_search U percent_tail analysis of
        Some score \<Rightarrow> max 0 (min 100 (int score))
      | None \<Rightarrow>
          (case re_search U (out_of_100_tail U) analysis of
             Some score \<Rightarrow> max 0 (min 100 (int score))
           | None \<Rightarrow> 75))"

text \<open>
  The spec's words for "the pattern occurs": at some position of the text stand one to
  three digits with the tail right after them.
\<close>

definition occurs_at :: "unicode \<Rightarrow> (str \<Rightarrow> bool) \<Rightarrow> str \<Rightarrow> nat \<Rightarrow> bool" where
  "occurs_at U tail t i =
     list_ex (\<lambda>n. i + n \<le> length t \<and> list_all (is_digit U) (take n (drop i t))
                    \<and> tail (drop (i + n) t)) [1, 2, 3]"

definition pattern_occurs :: "unicode \<Rightarrow> (str \<Rightarrow> bool) \<Rightarrow> str \<Rightarrow> bool" where
  "pattern_occurs U tail t = list_ex (occurs_at U tail t) [0..<length t]"

section \<open>Normalization (\<open>rag_core.py\<close>, \<open>clean_text\<close>)\<close>

text \<open>
  \<open>re.sub(r'\s+', ' ', text)\<close> and \<open>re.sub(r' +', ' ', text)\<close>: every maximal run of
  code points of the class becomes one space.
\<close>

function sub_runs :: "(nat \<Rightarrow> bool) \<Rightarrow> str \<Rightarrow> str" where
  "sub_runs P [] = []"
| "sub_runs P (c # cs) =
     (if P c then 32 # sub_runs P (dropWhile P cs) else c # sub_runs P cs)"
  by pat_completeness auto
termination
  by (relation "measure (\<lambda>(P, t). length t)") (auto simp: le_imp_less_Suc length_dropWhile_le)

text \<open>The class \<open>[\w\s.,!?;:()-]\<close>, whose complement the second substitution deletes.\<close>

definition kept :: "unicode \<Rightarrow> nat \<Rightarrow> bool" where
  "kept U c = (is_word U c \<or> is_space U c \<or> c \<in> set (ascii ''.,!?;:()-''))"

text \<open>No two neighbours of a text are both in the class.\<close>

fun single_runs :: "(nat \<Rightarrow> bool) \<Rightarrow> str \<Rightarrow> bool" where
  "single_runs P [] = True"
| "single_runs P [c] = True"
| "single_runs P (c # d # cs) = (\<not> (P c \<and> P d) \<and> single_runs P (d # cs))"

definition clean_text :: "unicode \<Rightarrow> str \<Rightarrow> str" where
  "clean_text U t =
     (if t = [] then []
      else strip U (sub_runs (\<lambda>c. c = 32) (filter (kept U) (sub_runs (is_space U) t))))"

section \<open>The pipeline (\<open>rag_core.py\<close>)\<close>

text \<open>
  An exception is a value. \<open>ValueError\<close> is the exception the repository's own input
  checks raise; \<open>ExternalError\<close> is any exception that comes out of a library or a
  service, whatever its class. Both carry the message \<open>str(e)\<close>.
\<close>

datatype exn = ValueError str | ExternalError str

record document =
  page_content :: str
  metadata :: "(str \<times> str) list"

record analysis_result =
  score :: int
  analysis :: str
  relevant_chunks :: "str list"

text \<open>
  The libraries and services the pipeline calls are parameters. \<open>'db\<close> is the content
  of the persist directory \<open>./chroma_db\<close>, \<open>'h\<close> an opened vector store. A call that
  raises gives the message of its exception (\<open>Inl\<close>, or \<open>Some\<close>).
  \<^item> \<open>split_documents size overlap docs\<close>: the recursive character splitter;
  \<^item> \<open>store_documents chunks name db\<close>: \<open>Chroma.from_documents\<close> and \<open>persist\<close>,
    which embed and write the chunks; the exception, if one is raised, and the
    directory afterwards;
  \<^item> \<open>open_collection name db\<close>: the constructor \<open>Chroma(...)\<close>;
  \<^item> \<open>similarity_search h query k\<close>;
  \<^item> \<open>chain_invoke context resume\<close>: the body of the \<open>try\<close> of
    \<open>generate_analysis\<close>, prompt template, model and output parser.
\<close>

record ('db, 'h) services =
  split_documents :: "nat \<Rightarrow> nat \<Rightarrow> document list \<Rightarrow> document list"
  store_documents :: "document list \<Rightarrow> str \<Rightarrow> 'db \<Rightarrow> str option \<times> 'db"
  open_collection :: "str \<Rightarrow> 'db \<Rightarrow> str + 'h"
  similarity_search :: "'h \<Rightarrow> str \<Rightarrow> nat \<Rightarrow> str + document list"
  chain_invoke :: "str \<Rightarrow> str \<Rightarrow> str + str"

text \<open>
  What a call can change: the persist directory, the lines printed, and the number of
  times the generator has been called.
\<close>

record 'db world =
  chroma_db :: 'db
  stdout :: "str list"
  generator_calls :: nat

fun str_of_nat :: "nat \<Rightarrow> str" where
  "str_of_nat n = (if n < 10 then [48 + n] else str_of_nat (n div 10) @ [48 + n mod 10])"

declare str_of_nat.simps [simp del]

definition process_job_description ::
  "('db, 'h) services \<Rightarrow> unicode \<Rightarrow> str \<Rightarrow> str \<Rightarrow> 'db world \<Rightarrow> (exn + str) \<times> 'db world" where
  "process_job_description S U job_desc_text collection_name w =
     (if strip U job_desc_text = []
      then (Inl (ValueError (ascii ''Job description text cannot be empty'')), w)
      else
        let cleaned_text = clean_text U job_desc_text;
            doc = \<lparr> page_content = cleaned_text,
                    metadata = [(ascii ''source'', ascii ''job_description''),
                                (ascii ''type'', ascii ''requirements'')] \<rparr>;
            chunks = split_documents S 1000 200 [doc]
        in case store_documents S chunks collection_name (chroma_db w) of
             (Some e, db) \<Rightarrow> (Inl (ExternalError e), w\<lparr>chroma_db := db\<rparr>)
           | (None, db) \<Rightarrow>
               (Inr (ascii ''Processed and stored '' @ str_of_nat (length chunks)
                       @ ascii '' chunks from job description.''),
                w\<lparr>chroma_db := db\<rparr>))"

text \<open>The bare \<open>except\<close> around the constructor turns every exception into \<open>[]\<close>.\<close>

definition query_job_description ::
  "('db, 'h) services \<Rightarrow> unicode \<Rightarrow> str \<Rightarrow> str \<Rightarrow> nat \<Rightarrow> 'db world \<Rightarrow> exn + document list" where
  "query_job_description S U resume_text collection_name k w =
     (if strip U resume_text = []
      then Inl (ValueError (ascii ''Resume text cannot be empty''))
      else
        let cleaned_resume = clean_text U resume_text
        in case open_collection S collection_name (chroma_db w) of
             Inl e \<Rightarrow> Inr []
           | Inr vectordb \<Rightarrow>
               (case similarity_search S vectordb cleaned_resume k of
                  Inl e \<Rightarrow> Inl (ExternalError e)
                | Inr results \<Rightarrow> Inr results))"

definition generate_fallback_analysis :: str where
  "generate_fallback_analysis = join_lines
     [ [],
       ascii ''1. OVERALL MATCH: 78%'',
       [],
       ascii ''2. STRENGTHS (Present in Resume):'',
       ascii ''- Strong programming skills in Python and JavaScript'',
       ascii ''- Experience with web frameworks and cloud technologies'',
       ascii ''- Demonstrated problem-solving abilities in previous roles'',
       ascii ''- Good educational background in Computer Science'',
       [],
       ascii ''3. GAPS & AREAS FOR IMPROVEMENT (Missing or Weak in Resume):'',
       ascii ''- Could benefit from more specific metrics to quantify achievements'',
       ascii ''- Limited experience with advanced machine learning frameworks'',
       ascii ''- Consider adding more leadership and collaboration examples'',
       [],
       ascii ''4. RECOMMENDATIONS:'',
       ascii ''- Add specific metrics to quantify your impact (e.g., '' @ [34]
         @ ascii ''improved performance by 40%'' @ [34] @ ascii '')'',
       ascii ''- Highlight any relevant certifications or courses'',
       ascii ''- Include more details about team collaboration and leadership'',
       ascii ''- Tailor your skills section to match the job requirements more closely'',
       [],
       ascii ''Note: This is a sample analysis. For real-time AI analysis, please check your API configuration.'',
       [] ]"

definition generate_analysis ::
  "('db, 'h) services \<Rightarrow> str \<Rightarrow> document list \<Rightarrow> 'db world \<Rightarrow> str \<times> 'db world" where
  "generate_analysis S resume_text chunks w =
     (let context_text = join_lines (map page_content chunks);
          w' = w\<lparr>generator_calls := generator_calls w + 1\<rparr>
      in case chain_invoke S context_text resume_text of
           Inr analysis_text \<Rightarrow> (analysis_text, w')
         | Inl e \<Rightarrow>
             (generate_fallback_analysis,
              w'\<lparr>stdout := stdout w' @ [ascii ''Google API Error: '' @ e]\<rparr>))"

definition analyze_resume_vs_jd ::
  "('db, 'h) services \<Rightarrow> unicode \<Rightarrow> str \<Rightarrow> str \<Rightarrow> 'db world
     \<Rightarrow> (exn + analysis_result) \<times> 'db world" where
  "analyze_resume_vs_jd S U resume_text job_desc_text w =
     (if strip U resume_text = [] \<or> strip U job_desc_text = []
      then (Inl (ValueError (ascii ''Both resume and job description text must be provided'')), w)
      else
        case process_job_description S U job_desc_text (ascii ''job_descriptions'') w of
          (Inl e, w1) \<Rightarrow> (Inl e, w1)
        | (Inr process_result, w1) \<Rightarrow>
            let w2 = w1\<lparr>stdout := stdout w1 @ [process_result]\<rparr>
            in case query_job_description S U resume_text (ascii ''job_descriptions'') 5 w2 of
                 Inl e \<Rightarrow> (Inl e, w2)
               | Inr chunks \<Rightarrow>
                   if chunks = []
                   then (Inr \<lparr> score = 0,
                               analysis = ascii ''No relevant job description requirements found. Please check your inputs.'',
                               relevant_chunks = [] \<rparr>, w2)
                   else
                     case generate_analysis S resume_text chunks w2 of
                       (analysis_text, w3) \<Rightarrow>
                         (Inr \<lparr> score = calculate_match_score U analysis_text,
                                 analysis = analysis_text,
                                 relevant_chunks = map page_content chunks \<rparr>, w3))"

text \<open>
  A small instance of the services, for evaluating the pipeline on concrete inputs: the
  store is the list of chunk texts written so far, the constructor opens whatever is
  there and never raises (it creates what does not exist), the search returns the
  first \<open>k\<close> chunks, the splitter returns the document as one chunk and the
  generator times out.
\<close>

definition memory_services :: "(str list, str list) services" where
  "memory_services =
     \<lparr> split_documents = (\<lambda>size overlap docs. docs),
       store_documents = (\<lambda>chunks name db. (None, db @ map page_content chunks)),
       open_collection = (\<lambda>name db. Inr db),
       similarity_search =
         (\<lambda>h query k. Inr (map (\<lambda>c. \<lparr> page_content = c, metadata = [] \<rparr>) (take k h))),
       chain_invoke = (\<lambda>context resume. Inl (ascii ''timeout'')) \<rparr>"

definition empty_world :: "str list world" where
  "empty_world = \<lparr> chroma_db = [], stdout = [], generator_calls = 0 \<rparr>"

section \<open>Line-oriented extraction\<close>

definition starts_with_any :: "str \<Rightarrow> nat list \<Rightarrow> bool" where
  "starts_with_any line cs = (case line of [] \<Rightarrow> False | c # _ \<Rightarrow> c \<in> set cs)"

text \<open>
  The test both loops use to end a section:
  \<open>line.strip() and ':' in line and not line.startswith((' ', '-', bullet, '\t'))\<close>.
\<close>

definition starts_new_section :: "unicode \<Rightarrow> str \<Rightarrow> bool" where
  "starts_new_section U line =
     (strip U line \<noteq> [] \<and> 58 \<in> set line \<and> \<not> starts_with_any line [32, 45, 8226, 9])"

subsection \<open>Suggestions (\<open>rag_core.py\<close>, \<open>get_improvement_suggestions\<close>)\<close>

definition suggestions_header :: "unicode \<Rightarrow> str \<Rightarrow> bool" where
  "suggestions_header U line =
     (let line_lower = lower U line
      in contains line_lower (ascii ''recommendations:'')
           \<or> contains line_lower (ascii ''suggestions:''))"

text \<open>The class \<open>[-\<bullet>\d.\s]\<close> of \<open>re.sub(r'^[-\<bullet>\d.\s]+', '', ...)\<close>.\<close>

definition bullet_prefix :: "unicode \<Rightarrow> nat \<Rightarrow> bool" where
  "bullet_prefix U c = (c = 45 \<or> c = 8226 \<or> is_digit U c \<or> c = 46 \<or> is_space U c)"

text \<open>
  \<open>re.match(r'^\d+[\.\)]', t)\<close>. The greedy \<open>\d+\<close> takes every digit; giving one back
  leaves a digit where the dot or the parenthesis must stand, so no shorter run matches.
\<close>

definition numbered_item :: "unicode \<Rightarrow> str \<Rightarrow> bool" where
  "numbered_item U t =
     (takeWhile (is_digit U) t \<noteq> [] \<and> starts_with_any (dropWhile (is_digit U) t) [46, 41])"

text \<open>\<open>re.sub(r'^\d+[\.\)]\s*', '', t)\<close>.\<close>

definition sub_numbered_prefix :: "unicode \<Rightarrow> str \<Rightarrow> str" where
  "sub_numbered_prefix U t =
     (if numbered_item U t then dropWhile (is_space U) (drop 1 (dropWhile (is_digit U) t))
      else t)"

text \<open>
  The loop over the lines; \<open>break\<close> returns the suggestions gathered so far, \<open>continue\<close>
  goes on with the next line.
\<close>

fun suggestions_loop :: "unicode \<Rightarrow> bool \<Rightarrow> str list \<Rightarrow> str list \<Rightarrow> str list" where
  "suggestions_loop U in_suggestions_section [] suggestions = suggestions"
| "suggestions_loop U in_suggestions_section (line # lines) suggestions =
     (if suggestions_header U line then suggestions_loop U True lines suggestions
      else if in_suggestions_section then
        (if starts_new_section U line then suggestions
         else if strip U line \<noteq> []
                 \<and> (starts_with_any (strip U line) [45] \<or> starts_with_any (strip U line) [8226])
         then
           (let clean_suggestion = strip U (dropWhile (bullet_prefix U) (strip U line))
            in if clean_suggestion \<noteq> [] \<and> length clean_suggestion > 10
               then suggestions_loop U True lines (suggestions @ [clean_suggestion])
               else suggestions_loop U True lines suggestions)
         else if strip U line \<noteq> [] \<and> numbered_item U (strip U line)
         then
           (let clean_suggestion = strip U (sub_numbered_prefix U (strip U line))
            in if clean_suggestion \<noteq> [] \<and> length clean_suggestion > 10
               then suggestions_loop U True lines (suggestions @ [clean_suggestion])
               else suggestions_loop U True lines suggestions)
         else suggestions_loop U True lines suggestions)
      else suggestions_loop U False lines suggestions)"

definition fallback_suggestions :: "str list" where
  "fallback_suggestions =
     [ ascii ''Add specific metrics to quantify your achievements'',
       ascii ''Tailor your skills section to match job requirements'',
       ascii ''Highlight relevant certifications and courses'',
       ascii ''Include more details about team collaboration'' ]"

definition get_improvement_suggestions :: "unicode \<Rightarrow> str \<Rightarrow> str list" where
  "get_improvement_suggestions U analysis_text =
     (if analysis_text = [] then [ascii ''No analysis available to extract suggestions'']
      else
        let suggestions = suggestions_loop U False (split_lines analysis_text) []
        in if suggestions \<noteq> [] then suggestions else fallback_suggestions)"

text \<open>
  List lines as the model output writes them: a marker, a space and the item text. The
  marker is \<open>-\<close>, the bullet U+2022 (which must not count as white space, or
  \<open>strip\<close> would take it), or digits followed by \<open>.\<close> or \<open>)\<close> (digits that are
  not white space and not the bullet).
\<close>

definition bullet_marker :: "unicode \<Rightarrow> str \<Rightarrow> bool" where
  "bullet_marker U m = (m = [45] \<or> (m = [8226] \<and> \<not> is_space U 8226))"

definition numbered_marker :: "unicode \<Rightarrow> str \<Rightarrow> bool" where
  "numbered_marker U m =
     (m \<noteq> [] \<and> butlast m \<noteq> []
      \<and> list_all (\<lambda>d. is_digit U d \<and> \<not> is_space U d \<and> d \<noteq> 8226) (butlast m)
      \<and> (last m = 46 \<or> last m = 41))"

definition entry_line :: "str \<times> str \<Rightarrow> str" where
  "entry_line e = fst e @ 32 # snd e"

text \<open>
  A marker \<open>m\<close> and an item text \<open>t\<close> that the prefix patterns and \<open>strip\<close> leave as
  it is: \<open>t\<close> is not empty, holds no line feed and does not end in white space, and
  the line is not taken for a header. After a bullet marker \<open>t\<close> does not begin with a
  code point of the class \<open>[-\<bullet>\d.\s]\<close>; after a numbered marker it does not begin
  with white space and holds no colon (a numbered line with a colon ends the section).
\<close>

definition plain_entry :: "unicode \<Rightarrow> str \<times> str \<Rightarrow> bool" where
  "plain_entry U e =
     (case e of (m, t) \<Rightarrow>
        t \<noteq> [] \<and> 10 \<notin> set t \<and> \<not> is_space U (last t)
        \<and> \<not> suggestions_header U (m @ 32 # t)
        \<and> ((bullet_marker U m \<and> \<not> bullet_prefix U (hd t))
             \<or> (numbered_marker U m \<and> \<not> is_space U (hd t) \<and> 58 \<notin> set t)))"

subsection \<open>Sections (\<open>app.py\<close>, \<open>extract_section\<close>)\<close>

definition names_section :: "unicode \<Rightarrow> str \<Rightarrow> str \<Rightarrow> bool" where
  "names_section U section_name line =
     (contains (lower U line) (lower U section_name) \<and> 58 \<in> set line)"

fun section_loop :: "unicode \<Rightarrow> str \<Rightarrow> bool \<Rightarrow> str list \<Rightarrow> str list \<Rightarrow> str list" where
  "section_loop U section_name in_section [] section_lines = section_lines"
| "section_loop U section_name in_section (line # lines) section_lines =
     (if names_section U section_name line
      then section_loop U section_name True lines section_lines
      else if in_section then
        (if starts_new_section U line then section_lines
         else if strip U line \<noteq> []
         then section_loop U section_name True lines (section_lines @ [line])
         else section_loop U section_name True lines section_lines)
      else section_loop U section_name False lines section_lines)"

definition extract_section :: "unicode \<Rightarrow> str \<Rightarrow> str \<Rightarrow> str" where
  "extract_section U t section_name =
     (if t = [] then ascii ''No content available for '' @ section_name
      else
        let result = strip U (join_lines (section_loop U section_name False (split_lines t) []))
        in if result \<noteq> [] then result
           else ascii ''No specific content found for '' @ section_name)"

section \<open>Properties of score extraction\<close>

text \<open>The search finds nothing exactly when the pattern occurs nowhere.\<close>

lemma match_here_None_iff:
  "match_here U tail t = None \<longleftrightarrow> \<not> occurs_at U tail t 0"
  by (auto simp: match_here_def occurs_at_def split: list.splits if_splits)

lemma occurs_at_Suc: "occurs_at U tail (c # cs) (Suc i) = occurs_at U tail cs i"
  by (simp add: occurs_at_def)

lemma list_ex_upt_Suc:
  "list_ex P [0..<Suc n] \<longleftrightarrow> P 0 \<or> list_ex (\<lambda>i. P (Suc i)) [0..<n]"
proof -
  have a: "list_ex P [0..<Suc n] \<longleftrightarrow> (\<exists>i<Suc n. P i)"
    unfolding list_ex_iff set_upt by auto
  have b: "list_ex (\<lambda>i. P (Suc i)) [0..<n] \<longleftrightarrow> (\<exists>i<n. P (Suc i))"
    unfolding list_ex_iff by auto
  have "(\<exists>i<Suc n. P i) \<longleftrightarrow> P 0 \<or> (\<exists>i<n. P (Suc i))"
    by (metis less_Suc_eq_0_disj)
  with a b show ?thesis by blast
qed

lemma re_search_None_iff:
  "re_search U tail t = None \<longleftrightarrow> \<not> pattern_occurs U tail t"
proof (induction t)
  case Nil
  show ?case by (simp add: pattern_occurs_def)
next
  case (Cons c cs)
  have split: "pattern_occurs U tail (c # cs) \<longleftrightarrow>
          occurs_at U tail (c # cs) 0 \<or> pattern_occurs U tail cs"
    unfolding pattern_occurs_def
    by (simp only: length_Cons list_ex_upt_Suc occurs_at_Suc)
  show ?case
  proof (cases "match_here U tail (c # cs)")
    case None
    then have "\<not> occurs_at U tail (c # cs) 0" by (simp add: match_here_None_iff)
    with None Cons split show ?thesis by simp
  next
    case (Some n)
    then have "occurs_at U tail (c # cs) 0" using match_here_None_iff [of U tail "c # cs"] by simp
    with Some split show ?thesis by simp
  qed
qed

lemmas score_eval =
  ascii_def calculate_match_score_def match_here_def percent_tail_def is_digit_def
  digit_value_def int_of_digits_def out_of_100_tail_def literal_ignorecase_def
  sre_lower_def ascii_lower_def

text \<open>
  A match of the percent pattern cannot reach over a code point that is neither a digit
  nor the percent sign: before such a code point, a text without the pattern is passed
  over by the search.
\<close>

lemma pattern_occurs_Cons:
  "pattern_occurs U tail (c # cs) \<longleftrightarrow>
     occurs_at U tail (c # cs) 0 \<or> pattern_occurs U tail cs"
  unfolding pattern_occurs_def
  by (simp only: length_Cons list_ex_upt_Suc occurs_at_Suc)

lemma percent_match_inside:
  assumes c: "\<not> is_digit U c" "c \<noteq> 37"
    and n: "n \<le> length (x @ c # rest)"
    and d: "list_all (is_digit U) (take n (x @ c # rest))"
    and p: "percent_tail (drop n (x @ c # rest))"
  shows "n \<le> length x \<and> list_all (is_digit U) (take n x) \<and> percent_tail (drop n x)"
proof -
  have less: "n < length x"
  proof (rule ccontr)
    assume "\<not> n < length x"
    then consider "n = length x" | "length x < n" by linarith
    then show False
    proof cases
      case 1
      with p c(2) show False by (simp add: percent_tail_def)
    next
      case 2
      then have "length x < length (take n (x @ c # rest))" by simp
      moreover from 2 have "take n (x @ c # rest) ! length x = (x @ c # rest) ! length x"
        by (intro nth_take)
      then have "take n (x @ c # rest) ! length x = c" by (simp only: nth_append_length)
      ultimately have "is_digit U c" using d by (metis list_all_length)
      with c(1) show False by simp
    qed
  qed
  then have "drop n x \<noteq> []" by simp
  then have "take 1 (drop n x @ c # rest) = take 1 (drop n x)"
    by (cases "drop n x") simp_all
  with less d p show ?thesis by (simp add: percent_tail_def)
qed

lemma percent_occurs_inside:
  assumes "\<not> is_digit U c" "c \<noteq> 37" "occurs_at U percent_tail (x @ c # rest) 0"
  shows "occurs_at U percent_tail x 0"
proof -
  let ?t = "x @ c # rest"
  from assms(3) have "\<exists>n\<in>set [1, 2, 3]. 0 + n \<le> length ?t
      \<and> list_all (is_digit U) (take n (drop 0 ?t)) \<and> percent_tail (drop (0 + n) ?t)"
    unfolding occurs_at_def list_ex_iff .
  then obtain n where n: "n \<in> set [1, 2, 3]" "0 + n \<le> length ?t"
      "list_all (is_digit U) (take n (drop 0 ?t))" "percent_tail (drop (0 + n) ?t)"
    by blast
  from n(2) have a: "n \<le> length ?t" by (simp only: add_0)
  from n(3) have b: "list_all (is_digit U) (take n ?t)" by (simp only: drop_0)
  from n(4) have d: "percent_tail (drop n ?t)" by (simp only: add_0)
  from percent_match_inside [OF assms(1,2) a b d]
  have "0 + n \<le> length x \<and> list_all (is_digit U) (take n (drop 0 x))
          \<and> percent_tail (drop (0 + n) x)"
    by (simp only: add_0 drop_0)
  with n(1) show ?thesis unfolding occurs_at_def list_ex_iff by blast
qed

lemma re_search_percent_skip:
  assumes "\<not> is_digit U c" "c \<noteq> 37"
  shows "\<not> pattern_occurs U percent_tail p \<Longrightarrow>
           re_search U percent_tail (p @ c # rest) = re_search U percent_tail (c # rest)"
proof (induction p)
  case Nil
  show ?case by simp
next
  case (Cons a p)
  then have no: "\<not> occurs_at U percent_tail (a # p) 0" and rest: "\<not> pattern_occurs U percent_tail p"
    by (simp_all add: pattern_occurs_Cons)
  from no percent_occurs_inside [OF assms, of "a # p" rest]
  have "\<not> occurs_at U percent_tail ((a # p) @ c # rest) 0" by blast
  then have "match_here U percent_tail (a # p @ c # rest) = None"
    by (simp add: match_here_None_iff)
  with Cons.IH [OF rest] show ?case by simp
qed

lemma score_after_prefix:
  assumes "\<not> is_digit U c" "c \<noteq> 37" "\<not> pattern_occurs U percent_tail p"
    and "re_search U percent_tail (c # rest) = Some n"
  shows "calculate_match_score U (p @ c # rest) = max 0 (min 100 (int n))"
  using re_search_percent_skip [OF assms(1,2,3), of rest] assms(4)
  by (simp add: calculate_match_score_def)

lemma search_83: "re_search U percent_tail (77 # ascii ''atch: 83%'' @ q) = Some 83"
  by (simp add: score_eval)

lemma search_142: "re_search U percent_tail (115 # ascii ''core: 142%'' @ q) = Some 142"
  by (simp add: score_eval)

lemma score_83:
  assumes "\<not> pattern_occurs U percent_tail p"
  shows "calculate_match_score U (p @ ascii ''Match: 83%'' @ q) = 83"
proof -
  have e: "ascii ''Match: 83%'' @ q = 77 # ascii ''atch: 83%'' @ q" by (simp add: ascii_def)
  have "\<not> is_digit U 77" by (simp add: is_digit_def digit_value_def)
  from score_after_prefix [OF this _ assms search_83]
  show ?thesis by (simp add: e)
qed

lemma score_142:
  assumes "\<not> pattern_occurs U percent_tail p"
  shows "calculate_match_score U (p @ ascii ''score: 142%'' @ q) = 100"
proof -
  have e: "ascii ''score: 142%'' @ q = 115 # ascii ''core: 142%'' @ q" by (simp add: ascii_def)
  have "\<not> is_digit U 115" by (simp add: is_digit_def digit_value_def)
  from score_after_prefix [OF this _ assms search_142]
  show ?thesis by (simp add: e)
qed

text \<open>
  C1. The test vectors of the spec, for every Unicode database: \<open>Match: 83%\<close> gives 83,
  \<open>score: 142%\<close> gives 100 (clamped), \<open>no numeric info\<close> gives the default 75 and
  \<open>87 out of 100\<close> gives 87; the first two also inside a longer text, after any text
  in which the percent pattern does not occur and before any text. The percent pattern
  is tried first: where it occurs, the
  score is the clamped value of its first match, whatever else the text holds; the
  pattern \<open>out of 100\<close> decides only in a non-empty text where the percent pattern does
  not occur.
\<close>

theorem score_extraction_vectors:
  "calculate_match_score U (ascii ''Match: 83%'') = 83
   \<and> calculate_match_score U (ascii ''score: 142%'') = 100
   \<and> calculate_match_score U (ascii ''no numeric info'') = 75
   \<and> calculate_match_score U (ascii ''87 out of 100'') = 87
   \<and> (\<not> pattern_occurs U percent_tail p \<longrightarrow>
        calculate_match_score U (p @ ascii ''Match: 83%'' @ q) = 83
        \<and> calculate_match_score U (p @ ascii ''score: 142%'' @ q) = 100)
   \<and> (pattern_occurs U percent_tail t \<longrightarrow>
        (\<exists>n. re_search U percent_tail t = Some n
           \<and> calculate_match_score U t = max 0 (min 100 (int n))))
   \<and> (t \<noteq> [] \<and> \<not> pattern_occurs U percent_tail t \<longrightarrow>
        calculate_match_score U t =
          (case re_search U (out_of_100_tail U) t of
             Some n \<Rightarrow> max 0 (min 100 (int n))
           | None \<Rightarrow> 75))"
proof -
  have v1: "calculate_match_score U (ascii ''Match: 83%'') = 83"
    by (simp add: score_eval)
  have v2: "calculate_match_score U (ascii ''score: 142%'') = 100"
    by (simp add: score_eval)
  have v3: "calculate_match_score U (ascii ''no numeric info'') = 75"
    by (simp add: score_eval)
  have v4: "calculate_match_score U (ascii ''87 out of 100'') = 87"
    by (simp add: score_eval)
  have first: "\<exists>n. re_search U percent_tail t = Some n
           \<and> calculate_match_score U t = max 0 (min 100 (int n))"
    if occ: "pattern_occurs U percent_tail t"
  proof -
    from occ have "re_search U percent_tail t \<noteq> None"
      by (simp add: re_search_None_iff)
    then obtain n where n: "re_search U percent_tail t = Some n" by blast
    then have "t \<noteq> []" by auto
    with n show ?thesis by (simp add: calculate_match_score_def)
  qed
  have second: "calculate_match_score U t =
          (case re_search U (out_of_100_tail U) t of
             Some n \<Rightarrow> max 0 (min 100 (int n))
           | None \<Rightarrow> 75)"
    if "t \<noteq> []" and "\<not> pattern_occurs U percent_tail t"
    using that by (simp add: calculate_match_score_def re_search_None_iff [symmetric])
  from v1 v2 v3 v4 first second score_83 [of U p q] score_142 [of U p q]
  show ?thesis by blast
qed

text \<open>
  The percent pattern wins over an earlier \<open>out of 100\<close>, and \<open>out of 100\<close> is read
  without regard to case.
\<close>

theorem score_extraction_vectors_witness:
  "pattern_occurs ascii_only percent_tail (ascii ''87 out of 100, or 50%'')
   \<and> calculate_match_score ascii_only (ascii ''87 out of 100, or 50%'') = 50
   \<and> ascii ''87 OUT of 100'' \<noteq> []
   \<and> \<not> pattern_occurs ascii_only percent_tail (ascii ''87 OUT of 100'')
   \<and> calculate_match_score ascii_only (ascii ''87 OUT of 100'') = 87
   \<and> \<not> pattern_occurs ascii_only percent_tail (ascii ''Result (1 of 2) - '')
   \<and> calculate_match_score ascii_only
         (ascii ''Result (1 of 2) - '' @ ascii ''Match: 83%'' @ ascii '', not 90%'') = 83"
proof -
  have o1: "pattern_occurs ascii_only percent_tail (ascii ''87 out of 100, or 50%'')"
    by code_simp
  have r1: "re_search ascii_only percent_tail (ascii ''87 out of 100, or 50%'') = Some 50"
    by code_simp
  have n2: "ascii ''87 OUT of 100'' \<noteq> []"
    by (simp add: ascii_def)
  have o2: "\<not> pattern_occurs ascii_only percent_tail (ascii ''87 OUT of 100'')"
    by code_simp
  have r2: "re_search ascii_only (out_of_100_tail ascii_only) (ascii ''87 OUT of 100'') = Some 87"
    by code_simp
  have o3: "\<not> pattern_occurs ascii_only percent_tail (ascii ''Result (1 of 2) - '')"
    by code_simp
  from score_extraction_vectors [of ascii_only _ _ "ascii ''87 out of 100, or 50%''"] o1 r1
  have a: "calculate_match_score ascii_only (ascii ''87 out of 100, or 50%'') = 50"
    by simp
  from score_extraction_vectors [of ascii_only _ _ "ascii ''87 OUT of 100''"] n2 o2 r2
  have b: "calculate_match_score ascii_only (ascii ''87 OUT of 100'') = 87"
    by simp
  from score_extraction_vectors
    [of ascii_only "ascii ''Result (1 of 2) - ''" "ascii '', not 90%''"] o3
  have c: "calculate_match_score ascii_only
         (ascii ''Result (1 of 2) - '' @ ascii ''Match: 83%'' @ ascii '', not 90%'') = 83"
    by blast
  from o1 a n2 o2 b o3 c show ?thesis by blast
qed

text \<open>
  C2, amended. A text in which neither pattern occurs gets the default 75 when it is
  not empty; the empty text is answered by the guard \<open>if not analysis: return 0\<close> and
  gets 0.
\<close>

theorem default_score:
  assumes "\<not> pattern_occurs U percent_tail t"
    and "\<not> pattern_occurs U (out_of_100_tail U) t"
  shows "calculate_match_score U t = (if t = [] then 0 else 75)"
  using assms by (simp add: calculate_match_score_def re_search_None_iff [symmetric])

theorem default_score_witness:
  "\<not> pattern_occurs ascii_only percent_tail (ascii ''no numeric info'')
   \<and> \<not> pattern_occurs ascii_only (out_of_100_tail ascii_only) (ascii ''no numeric info'')
   \<and> calculate_match_score ascii_only (ascii ''no numeric info'') = 75"
proof -
  have a: "\<not> pattern_occurs ascii_only percent_tail (ascii ''no numeric info'')"
    by code_simp
  have b: "\<not> pattern_occurs ascii_only (out_of_100_tail ascii_only) (ascii ''no numeric info'')"
    by code_simp
  have c: "ascii ''no numeric info'' \<noteq> []" by (simp add: ascii_def)
  from default_score [OF a b] a b c show ?thesis by simp
qed

text \<open>C2 as stated fails at the empty text: neither pattern occurs and the score is 0.\<close>

theorem default_score_counterexample:
  "\<not> pattern_occurs ascii_only percent_tail []
   \<and> \<not> pattern_occurs ascii_only (out_of_100_tail ascii_only) []
   \<and> calculate_match_score ascii_only [] \<noteq> 75"
  by (simp add: pattern_occurs_def calculate_match_score_def)

section \<open>Properties of normalization\<close>

text \<open>
  The substitution of runs writes only spaces and code points outside the class, and
  leaves no two neighbours in the class; a text that is already so is left as it is.
\<close>

lemma is_space_32: "is_space U 32"
  by (simp add: is_space_def)

lemma sub_runs_elem:
  "c \<in> set (sub_runs P t) \<Longrightarrow> c = 32 \<or> (c \<in> set t \<and> \<not> P c)"
proof (induction P t rule: sub_runs.induct)
  case (1 P)
  then show ?case by simp
next
  case (2 P d ds)
  show ?case
  proof (cases "P d")
    case True
    with 2 have "c = 32 \<or> c \<in> set (sub_runs P (dropWhile P ds))" by simp
    with 2 True show ?thesis by (auto dest: set_dropWhileD)
  next
    case False
    with 2 show ?thesis by auto
  qed
qed

lemma single_runs_Cons_other: "\<not> P c \<Longrightarrow> single_runs P (c # cs) = single_runs P cs"
  by (cases cs) simp_all

lemma single_runs_sub_runs: "P 32 \<Longrightarrow> single_runs P (sub_runs P t)"
proof (induction P t rule: sub_runs.induct)
  case (1 P)
  show ?case by simp
next
  case (2 P c cs)
  show ?case
  proof (cases "P c")
    case False
    with 2 show ?thesis by (simp add: single_runs_Cons_other)
  next
    case True
    show ?thesis
    proof (cases "dropWhile P cs")
      case Nil
      then have "sub_runs P (dropWhile P cs) = []" by (simp only: sub_runs.simps)
      with True show ?thesis by simp
    next
      case (Cons d ds)
      then have nd: "\<not> P d" using hd_dropWhile [of P cs] by simp
      from 2 True Cons have "single_runs P (sub_runs P (d # ds))" by simp
      with nd True Cons show ?thesis by simp
    qed
  qed
qed

lemma sub_runs_id:
  "\<forall>c\<in>set t. P c \<longrightarrow> c = 32 \<Longrightarrow> single_runs (\<lambda>c. c = 32) t \<Longrightarrow> sub_runs P t = t"
proof (induction "\<lambda>c::nat. c = 32" t rule: single_runs.induct)
  case 1
  show ?case by simp
next
  case (2 c)
  then show ?case by simp
next
  case (3 c d cs)
  from "3.prems"(1) have p: "\<forall>c\<in>set (d # cs). P c \<longrightarrow> c = 32" by simp
  from "3.prems"(2) have s: "single_runs (\<lambda>c. c = 32) (d # cs)" and cd: "c \<noteq> 32 \<or> d \<noteq> 32"
    by simp_all
  from "3.hyps" p s have ih: "sub_runs P (d # cs) = d # cs" by blast
  from "3.prems"(1) have pc: "P c \<Longrightarrow> c = 32" and pd: "P d \<Longrightarrow> d = 32" by simp_all
  show ?case
  proof (cases "P c")
    case False
    with ih show ?thesis by simp
  next
    case True
    with pc have c32: "c = 32" by simp
    with cd have "d \<noteq> 32" by simp
    with pd have "\<not> P d" by blast
    then have dw: "dropWhile P (d # cs) = d # cs" by simp
    have "sub_runs P (c # d # cs) = 32 # sub_runs P (dropWhile P (d # cs))"
      using True by (simp only: sub_runs.simps(2) [of P c "d # cs"] if_True)
    also have "\<dots> = 32 # d # cs" by (simp only: dw ih)
    finally show ?thesis by (simp only: c32)
  qed
qed

lemma single_runs_append:
  "single_runs P (xs @ ys) \<Longrightarrow> single_runs P xs \<and> single_runs P ys"
proof (induction P xs rule: single_runs.induct)
  case (1 P)
  then show ?case by simp
next
  case (2 P c)
  then show ?case by (cases ys) simp_all
next
  case (3 P c d cs)
  then show ?case by simp
qed

text \<open>\<open>strip\<close> cuts a text at both ends and leaves no white space there.\<close>

lemma rstrip_prefix: "t = rstrip U t @ rev (takeWhile (is_space U) (rev t))"
proof -
  have "rev (takeWhile (is_space U) (rev t) @ dropWhile (is_space U) (rev t)) = rev (rev t)"
    by (simp only: takeWhile_dropWhile_id)
  then show ?thesis by (simp only: rev_append rev_rev_ident rstrip_def)
qed

lemma lstrip_suffix: "t = takeWhile (is_space U) t @ lstrip U t"
  by (simp add: lstrip_def)

lemma strip_middle: "\<exists>a b. t = a @ strip U t @ b"
proof -
  have "lstrip U t = strip U t @ rev (takeWhile (is_space U) (rev (lstrip U t)))"
    unfolding strip_def by (rule rstrip_prefix)
  with lstrip_suffix [of t U] show ?thesis by metis
qed

lemma rstrip_Cons: "\<not> is_space U x \<Longrightarrow> rstrip U (x # xs) = x # rstrip U xs"
  by (simp add: rstrip_def dropWhile_append)

lemma rstrip_last: "rstrip U t \<noteq> [] \<Longrightarrow> \<not> is_space U (last (rstrip U t))"
  using hd_dropWhile [of "is_space U" "rev t"] by (simp add: rstrip_def last_rev)

lemma strip_hd: "strip U t \<noteq> [] \<Longrightarrow> \<not> is_space U (hd (strip U t))"
proof (cases "lstrip U t")
  case Nil
  then show "strip U t \<noteq> [] \<Longrightarrow> ?thesis" by (simp add: strip_def rstrip_def)
next
  case (Cons x xs)
  then have "\<not> is_space U x" using hd_dropWhile [of "is_space U" t] by (simp add: lstrip_def)
  with Cons show ?thesis by (simp add: strip_def rstrip_Cons)
qed

lemma strip_last: "strip U t \<noteq> [] \<Longrightarrow> \<not> is_space U (last (strip U t))"
  unfolding strip_def by (rule rstrip_last)

lemma strip_id:
  "t = [] \<or> (\<not> is_space U (hd t) \<and> \<not> is_space U (last t)) \<Longrightarrow> strip U t = t"
proof (cases t)
  case Nil
  then show ?thesis by (simp add: strip_def lstrip_def rstrip_def)
next
  case (Cons x xs)
  assume "t = [] \<or> (\<not> is_space U (hd t) \<and> \<not> is_space U (last t))"
  with Cons have h: "\<not> is_space U x" and l: "\<not> is_space U (last (x # xs))" by auto
  from h have "lstrip U (x # xs) = x # xs" by (simp add: lstrip_def)
  moreover have "rstrip U (x # xs) = x # xs"
  proof (cases "rev (x # xs)")
    case Nil
    then show ?thesis by simp
  next
    case (Cons a as)
    have "a = hd (rev (x # xs))" by (simp only: Cons list.sel)
    also have "\<dots> = last (x # xs)" by (rule hd_rev)
    finally have al: "a = last (x # xs)" .
    have "\<not> is_space U a" unfolding al by (rule l)
    then have "dropWhile (is_space U) (rev (x # xs)) = rev (x # xs)"
      using Cons by simp
    then show ?thesis by (simp only: rstrip_def rev_rev_ident)
  qed
  ultimately show ?thesis using Cons by (simp add: strip_def)
qed


text \<open>
  The normal form \<open>clean_text\<close> produces: every code point is of the kept class, the
  only white space is the space, no two spaces are neighbours, and neither end is white
  space. \<open>clean_text\<close> leaves every text of that form unchanged.
\<close>

lemma clean_text_normal:
  fixes U t
  defines "r \<equiv> clean_text U t"
  shows "(\<forall>c\<in>set r. kept U c \<and> (is_space U c \<longrightarrow> c = 32))
         \<and> single_runs (\<lambda>c. c = 32) r
         \<and> (r = [] \<or> (\<not> is_space U (hd r) \<and> \<not> is_space U (last r)))"
proof (cases "t = []")
  case True
  then show ?thesis by (simp add: r_def clean_text_def)
next
  case False
  define t1 where "t1 = sub_runs (is_space U) t"
  define t2 where "t2 = filter (kept U) t1"
  define t3 where "t3 = sub_runs (\<lambda>c. c = 32) t2"
  from False have r: "r = strip U t3"
    by (simp add: r_def clean_text_def t1_def t2_def t3_def)
  obtain a b where mid: "t3 = a @ r @ b"
    using strip_middle [of t3 U] r by auto
  have k32: "kept U 32" by (simp add: kept_def is_space_32)
  have el: "kept U c \<and> (is_space U c \<longrightarrow> c = 32)" if "c \<in> set t3" for c
  proof (cases "c = 32")
    case True
    with k32 show ?thesis by simp
  next
    case False
    with that have "c \<in> set t2" using sub_runs_elem [of c "\<lambda>c. c = 32" t2] by (simp add: t3_def)
    then have k: "kept U c" and "c \<in> set t1" by (simp_all add: t2_def)
    then have "\<not> is_space U c" using False sub_runs_elem [of c "is_space U" t] by (auto simp: t1_def)
    with k show ?thesis by simp
  qed
  have "set r \<subseteq> set t3" using mid by auto
  with el have n1: "\<forall>c\<in>set r. kept U c \<and> (is_space U c \<longrightarrow> c = 32)" by blast
  have "single_runs (\<lambda>c. c = 32) t3"
    unfolding t3_def by (rule single_runs_sub_runs) simp
  then have "single_runs (\<lambda>c. c = 32) (r @ b)"
    using single_runs_append [of "\<lambda>c. c = 32" a "r @ b"] mid by simp
  then have n3: "single_runs (\<lambda>c. c = 32) r"
    using single_runs_append [of "\<lambda>c. c = 32" r b] by simp
  have n4: "r = [] \<or> (\<not> is_space U (hd r) \<and> \<not> is_space U (last r))"
    using strip_hd [of U t3] strip_last [of U t3] r by blast
  from n1 n3 n4 show ?thesis by blast
qed

lemma clean_text_fixed:
  assumes "\<forall>c\<in>set r. kept U c \<and> (is_space U c \<longrightarrow> c = 32)"
    and "single_runs (\<lambda>c. c = 32) r"
    and "r = [] \<or> (\<not> is_space U (hd r) \<and> \<not> is_space U (last r))"
  shows "clean_text U r = r"
proof -
  from assms(1) have sp: "\<forall>c\<in>set r. is_space U c \<longrightarrow> c = 32" by blast
  have s1: "sub_runs (is_space U) r = r"
    using sp assms(2) by (rule sub_runs_id)
  from assms(1) have s2: "filter (kept U) r = r" by (simp add: filter_id_conv)
  have s3: "sub_runs (\<lambda>c. c = 32) r = r"
    using _ assms(2) by (rule sub_runs_id) simp
  have s4: "strip U r = r" using assms(3) by (rule strip_id)
  show ?thesis by (simp add: clean_text_def s1 s2 s3 s4)
qed

text \<open>
  C3. Normalization is idempotent: for every text \<open>x\<close> and every Unicode database,
  \<open>clean_text (clean_text x) = clean_text x\<close>.
\<close>

theorem clean_text_idempotent: "clean_text U (clean_text U x) = clean_text U x"
  using clean_text_normal [of U x] by (intro clean_text_fixed) blast+

text \<open>On a sample: the second pass changes nothing of what the first one produced.\<close>

theorem clean_text_idempotent_witness:
  "clean_text ascii_only (clean_text ascii_only (ascii ''  Senior   dev @ <ACME>,  5+ yrs!  ''))
     = ascii ''Senior dev ACME, 5 yrs!''"
proof -
  have "clean_text ascii_only (ascii ''  Senior   dev @ <ACME>,  5+ yrs!  '')
          = ascii ''Senior dev ACME, 5 yrs!''"
    by code_simp
  with clean_text_idempotent [of ascii_only "ascii ''  Senior   dev @ <ACME>,  5+ yrs!  ''"]
  show ?thesis by simp
qed

section \<open>Properties of the pipeline\<close>

text \<open>
  The only \<open>ValueError\<close> of \<open>process_job_description\<close> and
  \<open>query_job_description\<close> is their check of a blank text, and storing a job
  description does not call the generator.
\<close>

lemma strip_empty: "strip U [] = []"
  by (simp add: strip_def lstrip_def rstrip_def)

lemma process_job_description_no_ValueError:
  "strip U j \<noteq> [] \<Longrightarrow> fst (process_job_description S U j name w) \<noteq> Inl (ValueError m)"
  by (simp add: process_job_description_def Let_def split: prod.splits option.splits)

lemma query_job_description_no_ValueError:
  "strip U r \<noteq> [] \<Longrightarrow> query_job_description S U r name k w \<noteq> Inl (ValueError m)"
  by (simp add: query_job_description_def Let_def split: sum.splits)

lemma process_job_description_generator_calls:
  "process_job_description S U j name w = (res, w1) \<Longrightarrow> generator_calls w1 = generator_calls w"
  by (auto simp: process_job_description_def Let_def split: if_splits prod.splits option.splits)

text \<open>
  C4. \<open>analyze_resume_vs_jd\<close> raises its \<open>ValueError\<close> (the spec's
  \<open>InvalidInputError\<close>), leaving the world as it was, whenever the resume or the job
  description is empty after trimming, and a \<open>ValueError\<close> comes out of it only then;
  in particular for an empty resume with a job description \<open>non-empty\<close>, and the
  other way round.
\<close>

theorem analyze_input_validation:
  "(strip U resume_text = [] \<or> strip U job_desc_text = [] \<longrightarrow>
      analyze_resume_vs_jd S U resume_text job_desc_text w =
        (Inl (ValueError (ascii ''Both resume and job description text must be provided'')), w))
   \<and> ((\<exists>m. fst (analyze_resume_vs_jd S U resume_text job_desc_text w) = Inl (ValueError m))
        \<longrightarrow> strip U resume_text = [] \<or> strip U job_desc_text = [])
   \<and> fst (analyze_resume_vs_jd S U [] (ascii ''non-empty'') w) =
         Inl (ValueError (ascii ''Both resume and job description text must be provided''))
   \<and> fst (analyze_resume_vs_jd S U (ascii ''non-empty'') [] w) =
         Inl (ValueError (ascii ''Both resume and job description text must be provided''))"
proof -
  have a: "analyze_resume_vs_jd S U resume_text job_desc_text w =
        (Inl (ValueError (ascii ''Both resume and job description text must be provided'')), w)"
    if "strip U resume_text = [] \<or> strip U job_desc_text = []"
    using that by (simp add: analyze_resume_vs_jd_def)
  have b: "strip U resume_text = [] \<or> strip U job_desc_text = []"
    if v: "fst (analyze_resume_vs_jd S U resume_text job_desc_text w) = Inl (ValueError m)" for m
  proof (rule ccontr)
    assume "\<not> (strip U resume_text = [] \<or> strip U job_desc_text = [])"
    then have r: "strip U resume_text \<noteq> []" and j: "strip U job_desc_text \<noteq> []" by simp_all
    obtain res w1 where p: "process_job_description S U job_desc_text (ascii ''job_descriptions'') w = (res, w1)"
      by (cases "process_job_description S U job_desc_text (ascii ''job_descriptions'') w")
    from process_job_description_no_ValueError [OF j, of S "ascii ''job_descriptions''" w m] p
    have np: "res \<noteq> Inl (ValueError m)" by simp
    from v r j p np query_job_description_no_ValueError [OF r, of S "ascii ''job_descriptions''" 5 _ m]
    show False
      by (auto simp: analyze_resume_vs_jd_def Let_def split: sum.splits if_splits prod.splits)
  qed
  have c: "fst (analyze_resume_vs_jd S U [] (ascii ''non-empty'') w) =
         Inl (ValueError (ascii ''Both resume and job description text must be provided''))"
    by (simp add: analyze_resume_vs_jd_def strip_empty)
  have d: "fst (analyze_resume_vs_jd S U (ascii ''non-empty'') [] w) =
         Inl (ValueError (ascii ''Both resume and job description text must be provided''))"
    by (simp add: analyze_resume_vs_jd_def strip_empty)
  from a b c d show ?thesis by blast
qed


text \<open>A resume of three spaces is rejected, with the world unchanged.\<close>

theorem analyze_input_validation_witness:
  "strip ascii_only (ascii ''   '') = []
   \<and> analyze_resume_vs_jd memory_services ascii_only (ascii ''   '') (ascii ''non-empty'') empty_world =
        (Inl (ValueError (ascii ''Both resume and job description text must be provided'')), empty_world)"
proof -
  have blank: "strip ascii_only (ascii ''   '') = []" by code_simp
  with analyze_input_validation
    [of ascii_only "ascii ''   ''" "ascii ''non-empty''" memory_services empty_world]
  show ?thesis by simp
qed




text \<open>\<open>sub in t\<close> says that \<open>t\<close> is some text, \<open>sub\<close>, and some text.\<close>

lemma contains_iff: "contains t sub \<longleftrightarrow> (\<exists>pre post. t = pre @ sub @ post)"
proof
  show "contains t sub \<Longrightarrow> \<exists>pre post. t = pre @ sub @ post"
  proof (induction t)
    case Nil
    then show ?case by simp
  next
    case (Cons c cs)
    from Cons.prems consider "take (length sub) (c # cs) = sub" | "contains cs sub" by auto
    then show ?case
    proof cases
      case 1
      have "c # cs = take (length sub) (c # cs) @ drop (length sub) (c # cs)"
        by (simp only: append_take_drop_id)
      with 1 have "c # cs = [] @ sub @ drop (length sub) (c # cs)" by simp
      then show ?thesis by blast
    next
      case 2
      with Cons.IH obtain pre post where "cs = pre @ sub @ post" by blast
      then have "c # cs = (c # pre) @ sub @ post" by simp
      then show ?thesis by blast
    qed
  qed
next
  assume "\<exists>pre post. t = pre @ sub @ post"
  then obtain pre post where t: "t = pre @ sub @ post" by blast
  show "contains t sub" unfolding t
  proof (induction pre)
    case Nil
    show ?case
    proof (cases "sub @ post")
      case Nil
      then show ?thesis by simp
    next
      case (Cons a as)
      have "take (length sub) (sub @ post) = sub" by simp
      then have "take (length sub) (a # as) = sub" by (simp only: Cons)
      then have "contains (a # as) sub" by simp
      then show ?thesis by (simp only: Cons append_Nil)
    qed
  next
    case (Cons p ps)
    then show ?case by simp
  qed
qed

lemma join_lines_line: "l \<in> set ls \<Longrightarrow> \<exists>a b. join_lines ls = a @ l @ b"
proof (induction ls rule: join_lines.induct)
  case 1
  then show ?case by simp
next
  case (2 k)
  then have "join_lines [k] = [] @ l @ []" by simp
  then show ?case by blast
next
  case (3 k m ms)
  show ?case
  proof (cases "l = k")
    case True
    then have "join_lines (k # m # ms) = [] @ l @ (10 # join_lines (m # ms))" by simp
    then show ?thesis by blast
  next
    case False
    with 3 obtain a b where "join_lines (m # ms) = a @ l @ b" by auto
    then have "join_lines (k # m # ms) = (k @ 10 # a) @ l @ b" by simp
    then show ?thesis by blast
  qed
qed

lemma contains_join_lines:
  assumes "l \<in> set ls" and "contains l sub"
  shows "contains (join_lines ls) sub"
proof -
  from assms(1) obtain a b where j: "join_lines ls = a @ l @ b"
    using join_lines_line by blast
  from assms(2) obtain pre post where "l = pre @ sub @ post"
    by (auto simp: contains_iff)
  with j have "join_lines ls = (a @ pre) @ sub @ (post @ b)" by simp
  then show ?thesis unfolding contains_iff by blast
qed

text \<open>The first percent pattern of the canned analysis is \<open>78%\<close>, in its second line.\<close>

lemma prefix_score:
  "calculate_match_score U (10 # ascii ''1. OVERALL MATCH: 78%'' @ rest) = 78"
  by (simp add: score_eval)

lemma fallback_split:
  "\<exists>rest. generate_fallback_analysis = 10 # ascii ''1. OVERALL MATCH: 78%'' @ rest"
  by (simp add: generate_fallback_analysis_def)

lemma fallback_score: "calculate_match_score U generate_fallback_analysis = 78"
  using fallback_split prefix_score by metis

lemma fallback_headers:
  "contains generate_fallback_analysis (ascii ''OVERALL MATCH'')"
  "contains generate_fallback_analysis (ascii ''STRENGTHS'')"
  "contains generate_fallback_analysis (ascii ''GAPS & AREAS FOR IMPROVEMENT'')"
  "contains generate_fallback_analysis (ascii ''RECOMMENDATIONS'')"
  "contains generate_fallback_analysis (ascii ''78%'')"
proof -
  have 1: "contains (ascii ''1. OVERALL MATCH: 78%'') (ascii ''OVERALL MATCH'')"
    and 2: "contains (ascii ''2. STRENGTHS (Present in Resume):'') (ascii ''STRENGTHS'')"
    and 3: "contains (ascii ''3. GAPS & AREAS FOR IMPROVEMENT (Missing or Weak in Resume):'')
              (ascii ''GAPS & AREAS FOR IMPROVEMENT'')"
    and 4: "contains (ascii ''4. RECOMMENDATIONS:'') (ascii ''RECOMMENDATIONS'')"
    and 5: "contains (ascii ''1. OVERALL MATCH: 78%'') (ascii ''78%'')"
    by code_simp+
  show "contains generate_fallback_analysis (ascii ''OVERALL MATCH'')"
    unfolding generate_fallback_analysis_def by (rule contains_join_lines [OF _ 1]) simp
  show "contains generate_fallback_analysis (ascii ''STRENGTHS'')"
    unfolding generate_fallback_analysis_def by (rule contains_join_lines [OF _ 2]) simp
  show "contains generate_fallback_analysis (ascii ''GAPS & AREAS FOR IMPROVEMENT'')"
    unfolding generate_fallback_analysis_def by (rule contains_join_lines [OF _ 3]) simp
  show "contains generate_fallback_analysis (ascii ''RECOMMENDATIONS'')"
    unfolding generate_fallback_analysis_def by (rule contains_join_lines [OF _ 4]) simp
  show "contains generate_fallback_analysis (ascii ''78%'')"
    unfolding generate_fallback_analysis_def by (rule contains_join_lines [OF _ 5]) simp
qed

text \<open>
  C7. Whenever the call of the generator raises, whatever the exception,
  \<open>generate_analysis\<close> returns the one canned text. That text contains the four section
  headers and \<open>78%\<close>, and \<open>calculate_match_score\<close> gives 78 on it.
\<close>

theorem generation_failure_fallback:
  "(chain_invoke S (join_lines (map page_content chunks)) resume_text = Inl e \<longrightarrow>
      fst (generate_analysis S resume_text chunks w) = generate_fallback_analysis)
   \<and> contains generate_fallback_analysis (ascii ''OVERALL MATCH'')
   \<and> contains generate_fallback_analysis (ascii ''STRENGTHS'')
   \<and> contains generate_fallback_analysis (ascii ''GAPS & AREAS FOR IMPROVEMENT'')
   \<and> contains generate_fallback_analysis (ascii ''RECOMMENDATIONS'')
   \<and> contains generate_fallback_analysis (ascii ''78%'')
   \<and> calculate_match_score U generate_fallback_analysis = 78"
  using fallback_headers fallback_score [of U]
  by (simp add: generate_analysis_def Let_def)

text \<open>With a generator that times out, the analysis is the canned text and scores 78.\<close>

theorem generation_failure_fallback_witness:
  "chain_invoke memory_services (join_lines (map page_content [\<lparr> page_content = ascii ''Python'', metadata = [] \<rparr>]))
       (ascii ''Python, AWS'') = Inl (ascii ''timeout'')
   \<and> fst (generate_analysis memory_services (ascii ''Python, AWS'')
         [\<lparr> page_content = ascii ''Python'', metadata = [] \<rparr>] empty_world) = generate_fallback_analysis
   \<and> calculate_match_score ascii_only
        (fst (generate_analysis memory_services (ascii ''Python, AWS'')
           [\<lparr> page_content = ascii ''Python'', metadata = [] \<rparr>] empty_world)) = 78"
proof -
  have a: "chain_invoke memory_services (join_lines (map page_content [\<lparr> page_content = ascii ''Python'', metadata = [] \<rparr>]))
       (ascii ''Python, AWS'') = Inl (ascii ''timeout'')"
    by (simp add: memory_services_def)
  from generation_failure_fallback
    [of memory_services "[\<lparr> page_content = ascii ''Python'', metadata = [] \<rparr>]" "ascii ''Python, AWS''"
        "ascii ''timeout''" empty_world ascii_only] a
  show ?thesis by simp
qed

text \<open>
  C10. When neither input is blank, the job description has been stored and the query
  returns no chunk, \<open>analyze_resume_vs_jd\<close> raises nothing: it returns score 0, the
  fixed message and no relevant chunks, and the generator has not been called.
\<close>

theorem analyze_no_relevant_chunks:
  assumes "strip U resume_text \<noteq> []" and "strip U job_desc_text \<noteq> []"
    and "process_job_description S U job_desc_text (ascii ''job_descriptions'') w
           = (Inr process_result, w1)"
    and "query_job_description S U resume_text (ascii ''job_descriptions'') 5
           (w1\<lparr>stdout := stdout w1 @ [process_result]\<rparr>) = Inr []"
  shows "analyze_resume_vs_jd S U resume_text job_desc_text w =
           (Inr \<lparr> score = 0,
                   analysis = ascii ''No relevant job description requirements found. Please check your inputs.'',
                   relevant_chunks = [] \<rparr>,
            w1\<lparr>stdout := stdout w1 @ [process_result]\<rparr>)
         \<and> generator_calls (snd (analyze_resume_vs_jd S U resume_text job_desc_text w))
             = generator_calls w"
proof -
  from assms have r: "analyze_resume_vs_jd S U resume_text job_desc_text w =
           (Inr \<lparr> score = 0,
                   analysis = ascii ''No relevant job description requirements found. Please check your inputs.'',
                   relevant_chunks = [] \<rparr>,
            w1\<lparr>stdout := stdout w1 @ [process_result]\<rparr>)"
    by (simp add: analyze_resume_vs_jd_def Let_def)
  from process_job_description_generator_calls [OF assms(3)]
  have "generator_calls w1 = generator_calls w" .
  with r show ?thesis by simp
qed

text \<open>
  In the small instance with a search that finds nothing: the job description is
  stored, the line about it is printed, and the generator count stays 0.
\<close>

theorem analyze_no_relevant_chunks_witness:
  "analyze_resume_vs_jd (memory_services\<lparr>similarity_search := (\<lambda>h query k. Inr [])\<rparr>) ascii_only
      (ascii ''Python, AWS'') (ascii ''Looking for Python'') empty_world =
     (Inr \<lparr> score = 0,
             analysis = ascii ''No relevant job description requirements found. Please check your inputs.'',
             relevant_chunks = [] \<rparr>,
      \<lparr> chroma_db = [ascii ''Looking for Python''],
        stdout = [ascii ''Processed and stored 1 chunks from job description.''],
        generator_calls = 0 \<rparr>)"
proof -
  let ?S = "memory_services\<lparr>similarity_search := (\<lambda>h query k. Inr [])\<rparr>"
  let ?w1 = "\<lparr> chroma_db = [ascii ''Looking for Python''], stdout = [], generator_calls = 0 \<rparr>"
  let ?p = "ascii ''Processed and stored 1 chunks from job description.''"
  have a: "strip ascii_only (ascii ''Python, AWS'') \<noteq> []" by code_simp
  have b: "strip ascii_only (ascii ''Looking for Python'') \<noteq> []" by code_simp
  have cl: "clean_text ascii_only (ascii ''Looking for Python'') = ascii ''Looking for Python''"
    by code_simp
  have n: "str_of_nat (Suc 0) = ascii ''1''" by code_simp
  from b cl n have c: "process_job_description ?S ascii_only (ascii ''Looking for Python'')
            (ascii ''job_descriptions'') empty_world = (Inr ?p, ?w1)"
    by (simp add: process_job_description_def memory_services_def empty_world_def ascii_def)
  from a have d: "query_job_description ?S ascii_only (ascii ''Python, AWS'')
            (ascii ''job_descriptions'') 5 (?w1\<lparr>stdout := stdout ?w1 @ [?p]\<rparr>) = Inr []"
    by (simp add: query_job_description_def memory_services_def)
  from analyze_no_relevant_chunks [OF a b c d] show ?thesis by simp
qed

section \<open>Properties of suggestion extraction\<close>

text \<open>Splitting what was joined gives the lines back, when no line holds a line feed.\<close>

lemma split_lines_line:
  "10 \<notin> set l \<Longrightarrow> split_lines (l @ 10 # rest) = l # split_lines rest"
  by (induction l) auto

lemma split_lines_last: "10 \<notin> set l \<Longrightarrow> split_lines l = [l]"
  by (induction l) auto

lemma split_join:
  "ls \<noteq> [] \<Longrightarrow> \<forall>l\<in>set ls. 10 \<notin> set l \<Longrightarrow> split_lines (join_lines ls) = ls"
proof (induction ls rule: join_lines.induct)
  case 1
  then show ?case by simp
next
  case (2 l)
  then show ?case by (simp add: split_lines_last)
next
  case (3 l m ms)
  then show ?case by (simp add: split_lines_line)
qed

lemma join_lines_nonempty: "l \<in> set ls \<Longrightarrow> l \<noteq> [] \<Longrightarrow> join_lines ls \<noteq> []"
  using join_lines_line [of l ls] by auto

lemmas line_eval =
  ascii_def suggestions_header_def lower_def ascii_lower_def bullet_prefix_def
  is_digit_def digit_value_def is_space_def

text \<open>
  A list line with a plain entry keeps its shape under \<open>strip\<close>, does not end the
  section, takes the branch of its marker, and its cleaned suggestion is the item text.
\<close>

lemma strip_plain:
  "t \<noteq> [] \<Longrightarrow> \<not> is_space U (hd t) \<Longrightarrow> \<not> is_space U (last t) \<Longrightarrow> strip U t = t"
  by (rule strip_id) simp

lemma bullet_entry:
  assumes m: "bullet_marker U m" and t: "t \<noteq> []" "\<not> bullet_prefix U (hd t)"
    "\<not> is_space U (last t)"
  shows "strip U (m @ 32 # t) = m @ 32 # t"
    and "\<not> starts_new_section U (m @ 32 # t)"
    and "starts_with_any (m @ 32 # t) [45] \<or> starts_with_any (m @ 32 # t) [8226]"
    and "dropWhile (bullet_prefix U) (m @ 32 # t) = t"
    and "strip U t = t"
proof -
  from m consider "m = [45]" | "m = [8226]" "\<not> is_space U 8226"
    by (auto simp: bullet_marker_def)
  note kinds = this
  have sp: "\<not> is_space U 45" by (simp add: is_space_def)
  from t(2) have hs: "\<not> is_space U (hd t)" by (simp add: bullet_prefix_def)
  show "strip U (m @ 32 # t) = m @ 32 # t"
    using kinds t(1,3) sp by cases (auto intro!: strip_plain)
  show "\<not> starts_new_section U (m @ 32 # t)"
    using kinds by cases (simp_all add: starts_new_section_def starts_with_any_def)
  show "starts_with_any (m @ 32 # t) [45] \<or> starts_with_any (m @ 32 # t) [8226]"
    using kinds by cases (simp_all add: starts_with_any_def)
  show "dropWhile (bullet_prefix U) (m @ 32 # t) = t"
    using kinds t(1,2) by cases (cases t, simp_all add: bullet_prefix_def is_space_32)+
  show "strip U t = t" using t(1) hs t(3) by (rule strip_plain)
qed

lemma not_digit_ascii:
  "\<not> is_digit U 10" "\<not> is_digit U 32" "\<not> is_digit U 41" "\<not> is_digit U 45"
  "\<not> is_digit U 46" "\<not> is_digit U 58"
  by (simp_all add: is_digit_def digit_value_def)

lemma numbered_entry:
  assumes m: "numbered_marker U m" and t: "t \<noteq> []" "\<not> is_space U (hd t)"
    "\<not> is_space U (last t)" "58 \<notin> set t"
  shows "strip U (m @ 32 # t) = m @ 32 # t"
    and "\<not> starts_new_section U (m @ 32 # t)"
    and "\<not> starts_with_any (m @ 32 # t) [45]"
    and "\<not> starts_with_any (m @ 32 # t) [8226]"
    and "numbered_item U (m @ 32 # t)"
    and "sub_numbered_prefix U (m @ 32 # t) = t"
    and "strip U t = t"
proof -
  define ds where "ds = butlast m"
  define c where "c = last m"
  from m have mm: "m = ds @ [c]" and ds: "ds \<noteq> []"
    and dig: "\<forall>d\<in>set ds. is_digit U d \<and> \<not> is_space U d \<and> d \<noteq> 8226"
    and c: "c = 46 \<or> c = 41"
    by (simp_all add: numbered_marker_def ds_def c_def list_all_iff)
  from ds obtain d ds' where dd: "ds = d # ds'" by (cases ds) auto
  with dig have d: "is_digit U d" "\<not> is_space U d" "d \<noteq> 8226" by simp_all
  from d(1) have d45: "d \<noteq> 45" using not_digit_ascii(4) by auto
  from c have cnd: "\<not> is_digit U c" using not_digit_ascii(3,5) by auto
  have line: "m @ 32 # t = ds @ c # 32 # t" by (simp add: mm)
  have tw: "takeWhile (is_digit U) (ds @ c # 32 # t) = ds"
    using dig cnd by (simp add: takeWhile_append2)
  have dw: "dropWhile (is_digit U) (ds @ c # 32 # t) = c # 32 # t"
    using dig cnd by (simp add: dropWhile_append2)
  show "strip U (m @ 32 # t) = m @ 32 # t"
    unfolding line using d(2) t(1,3) by (intro strip_plain) (simp_all add: dd)
  have "58 \<notin> set ds" using dig not_digit_ascii(6) by auto
  with c t(4) have "58 \<notin> set (m @ 32 # t)" by (auto simp: mm)
  then show "\<not> starts_new_section U (m @ 32 # t)"
    by (simp add: starts_new_section_def)
  show "\<not> starts_with_any (m @ 32 # t) [45]"
    unfolding line using d45 by (simp add: starts_with_any_def dd)
  show "\<not> starts_with_any (m @ 32 # t) [8226]"
    unfolding line using d(3) by (simp add: starts_with_any_def dd)
  show ni: "numbered_item U (m @ 32 # t)"
    unfolding line numbered_item_def tw dw using ds c by (auto simp: starts_with_any_def)
  have "dropWhile (is_space U) (32 # t) = t"
    using t(1,2) by (cases t) (simp_all add: is_space_32)
  with ni show "sub_numbered_prefix U (m @ 32 # t) = t"
    unfolding sub_numbered_prefix_def by (simp add: line dw)
  show "strip U t = t" using t(1,2,3) by (rule strip_plain)
qed

text \<open>
  Inside the section, the loop keeps of such a line the item text when it is longer than
  10 code points, and nothing otherwise; so over a list of such lines.
\<close>

lemma suggestions_loop_entry:
  assumes "plain_entry U (m, t)"
  shows "suggestions_loop U True (entry_line (m, t) # ls) acc
           = suggestions_loop U True ls (if 10 < length t then acc @ [t] else acc)"
proof -
  from assms have t: "t \<noteq> []" "\<not> is_space U (last t)"
    and nh: "\<not> suggestions_header U (m @ 32 # t)"
    and kind: "(bullet_marker U m \<and> \<not> bullet_prefix U (hd t))
             \<or> (numbered_marker U m \<and> \<not> is_space U (hd t) \<and> 58 \<notin> set t)"
    by (simp_all add: plain_entry_def)
  have l: "m @ 32 # t \<noteq> []" by simp
  from kind show ?thesis
  proof
    assume b: "bullet_marker U m \<and> \<not> bullet_prefix U (hd t)"
    note f = bullet_entry [OF conjunct1 [OF b] t(1) conjunct2 [OF b] t(2)]
    from f(3) nh t(1) show ?thesis
      by (simp add: entry_line_def f(1,2,4,5) Let_def)
  next
    assume n: "numbered_marker U m \<and> \<not> is_space U (hd t) \<and> 58 \<notin> set t"
    then have n1: "numbered_marker U m" and n2: "\<not> is_space U (hd t)" and n3: "58 \<notin> set t"
      by simp_all
    note f = numbered_entry [OF n1 t(1) n2 t(2) n3]
    from nh t(1) show ?thesis
      by (simp add: entry_line_def f Let_def)
  qed
qed

lemma suggestions_loop_entries:
  "list_all (plain_entry U) es \<Longrightarrow>
     suggestions_loop U True (map entry_line es) acc
       = acc @ filter (\<lambda>t. 10 < length t) (map snd es)"
proof (induction es arbitrary: acc)
  case Nil
  show ?case by simp
next
  case (Cons e es)
  obtain m t where e: "e = (m, t)" by (cases e)
  from Cons.prems e have p: "plain_entry U (m, t)" and rest: "list_all (plain_entry U) es"
    by simp_all
  from suggestions_loop_entry [OF p] Cons.IH [OF rest]
  show ?case by (simp add: e)
qed

lemma entry_line_no_newline:
  assumes "plain_entry U e"
  shows "10 \<notin> set (entry_line e)"
proof -
  obtain m t where e: "e = (m, t)" by (cases e)
  from assms e have t: "10 \<notin> set t"
    and kind: "bullet_marker U m \<or> numbered_marker U m"
    by (auto simp: plain_entry_def)
  have "10 \<notin> set m"
    using kind
  proof
    assume "bullet_marker U m"
    then show ?thesis by (auto simp: bullet_marker_def)
  next
    assume n: "numbered_marker U m"
    then have "m = butlast m @ [last m]" by (simp add: numbered_marker_def)
    moreover from n have "10 \<notin> set (butlast m)"
      using not_digit_ascii(1) by (auto simp: numbered_marker_def list_all_iff)
    moreover from n have "last m \<noteq> 10" by (auto simp: numbered_marker_def)
    ultimately show ?thesis by (metis Un_iff empty_iff empty_set set_ConsD set_append)
  qed
  with t show ?thesis by (simp add: entry_line_def e)
qed

lemma suggestions_entries:
  assumes "suggestions_header U h" and "10 \<notin> set h" and "list_all (plain_entry U) es"
  shows "get_improvement_suggestions U (join_lines (h # map entry_line es))
           = (if filter (\<lambda>t. 10 < length t) (map snd es) = [] then fallback_suggestions
              else filter (\<lambda>t. 10 < length t) (map snd es))"
proof -
  let ?ls = "h # map entry_line es"
  have nl: "\<forall>l\<in>set ?ls. 10 \<notin> set l"
    using assms(2,3) entry_line_no_newline by (auto simp: list_all_iff)
  then have sp: "split_lines (join_lines ?ls) = ?ls" by (intro split_join) simp_all
  have "h \<noteq> []" using assms(1) by (auto simp: suggestions_header_def lower_def ascii_def)
  then have ne: "join_lines ?ls \<noteq> []" by (intro join_lines_nonempty [of h]) simp_all
  have "suggestions_loop U False ?ls [] = filter (\<lambda>t. 10 < length t) (map snd es)"
    using assms(1) suggestions_loop_entries [OF assms(3), of "[]"] by simp
  with sp ne show ?thesis by (simp add: get_improvement_suggestions_def)
qed


lemmas entry_eval = plain_entry_def bullet_marker_def numbered_marker_def line_eval

lemma recommendations_header: "suggestions_header U (ascii ''RECOMMENDATIONS:'')"
  by (simp add: line_eval)

lemma spec_entries:
  "list_all (plain_entry U)
     [([45], ascii ''OK''), ([45], ascii ''Add quantified metrics to your summary'')]"
  by (simp add: entry_eval)

lemma numbered_entries:
  "list_all (plain_entry U)
     [(ascii ''1.'', ascii ''abcdefghij''), (ascii ''2)'', ascii ''abcdefghijk'')]"
  by (simp add: entry_eval)

text \<open>
  C5, amended. After a header line, of list lines with plain entries (markers \<open>-\<close>,
  the bullet U+2022, \<open>1.\<close> or \<open>1)\<close>) the suggestions are exactly the item texts of
  more than 10 code points, in their order, and the fixed fallback list when there is
  none: an item is discarded exactly when its stripped text has at most 10 code points.
  After \<open>RECOMMENDATIONS:\<close>, the bullet \<open>- OK\<close> is excluded and
  \<open>- Add quantified metrics to your summary\<close> is included; of the numbered items
  \<open>1. abcdefghij\<close> and \<open>2) abcdefghijk\<close> only the second, of 11 code points, is kept.
\<close>

theorem suggestion_length_filter:
  "(suggestions_header U h \<and> 10 \<notin> set h \<and> list_all (plain_entry U) es \<longrightarrow>
      get_improvement_suggestions U (join_lines (h # map entry_line es))
        = (if filter (\<lambda>t. 10 < length t) (map snd es) = [] then fallback_suggestions
           else filter (\<lambda>t. 10 < length t) (map snd es)))
   \<and> get_improvement_suggestions U
        (join_lines [ascii ''RECOMMENDATIONS:'', ascii ''- OK'',
                     ascii ''- Add quantified metrics to your summary''])
        = [ascii ''Add quantified metrics to your summary'']
   \<and> get_improvement_suggestions U
        (join_lines [ascii ''RECOMMENDATIONS:'', ascii ''1. abcdefghij'',
                     ascii ''2) abcdefghijk''])
        = [ascii ''abcdefghijk'']"
proof -
  have h: "10 \<notin> set (ascii ''RECOMMENDATIONS:'')" by (simp add: ascii_def)
  have l1: "ascii ''RECOMMENDATIONS:'' # map entry_line
              [([45], ascii ''OK''), ([45], ascii ''Add quantified metrics to your summary'')]
            = [ascii ''RECOMMENDATIONS:'', ascii ''- OK'',
               ascii ''- Add quantified metrics to your summary'']"
    by (simp add: entry_line_def ascii_def)
  have l2: "ascii ''RECOMMENDATIONS:'' # map entry_line
              [(ascii ''1.'', ascii ''abcdefghij''), (ascii ''2)'', ascii ''abcdefghijk'')]
            = [ascii ''RECOMMENDATIONS:'', ascii ''1. abcdefghij'', ascii ''2) abcdefghijk'']"
    by (simp add: entry_line_def ascii_def)
  have f1: "filter (\<lambda>t. 10 < length t)
              (map snd [([45], ascii ''OK''), ([45::nat], ascii ''Add quantified metrics to your summary'')])
            = [ascii ''Add quantified metrics to your summary'']"
    by (simp add: ascii_def)
  have f2: "filter (\<lambda>t. 10 < length t)
              (map snd [(ascii ''1.'', ascii ''abcdefghij''), (ascii ''2)'', ascii ''abcdefghijk'')])
            = [ascii ''abcdefghijk'']"
    by (simp add: ascii_def)
  have v1: "get_improvement_suggestions U
        (join_lines [ascii ''RECOMMENDATIONS:'', ascii ''- OK'',
                     ascii ''- Add quantified metrics to your summary''])
        = [ascii ''Add quantified metrics to your summary'']"
    using suggestions_entries [OF recommendations_header h spec_entries, of U]
    by (simp only: l1 f1) simp
  have v2: "get_improvement_suggestions U
        (join_lines [ascii ''RECOMMENDATIONS:'', ascii ''1. abcdefghij'',
                     ascii ''2) abcdefghijk''])
        = [ascii ''abcdefghijk'']"
    using suggestions_entries [OF recommendations_header h numbered_entries, of U]
    by (simp only: l2 f2) simp
  from v1 v2 suggestions_entries [of U h es] show ?thesis by blast
qed

text \<open>
  The bound on a sample with every kind of marker: item texts of ten code points are
  dropped, longer ones are kept, after \<open>-\<close>, after the bullet and after a number.
\<close>

theorem suggestion_length_filter_witness:
  "suggestions_header ascii_only (ascii ''Suggestions:'')
   \<and> 10 \<notin> set (ascii ''Suggestions:'')
   \<and> list_all (plain_entry ascii_only)
        [([45], ascii ''abcdefghij''), ([8226], ascii ''bcdefghijkl''),
         (ascii ''1.'', ascii ''cdefghijkl''), (ascii ''12)'', ascii ''3 years, not 2''),
         ([8226], ascii ''efghijklmn''), ([45], ascii ''fghijklmnop'')]
   \<and> get_improvement_suggestions ascii_only
        (join_lines [ascii ''Suggestions:'', ascii ''- abcdefghij'', 8226 # ascii '' bcdefghijkl'',
                     ascii ''1. cdefghijkl'', ascii ''12) 3 years, not 2'',
                     8226 # ascii '' efghijklmn'', ascii ''- fghijklmnop''])
        = [ascii ''bcdefghijkl'', ascii ''3 years, not 2'', ascii ''fghijklmnop'']"
proof -
  let ?es = "[([45], ascii ''abcdefghij''), ([8226], ascii ''bcdefghijkl''),
         (ascii ''1.'', ascii ''cdefghijkl''), (ascii ''12)'', ascii ''3 years, not 2''),
         ([8226], ascii ''efghijklmn''), ([45::nat], ascii ''fghijklmnop'')]"
  have h: "suggestions_header ascii_only (ascii ''Suggestions:'')" by code_simp
  have n: "10 \<notin> set (ascii ''Suggestions:'')" by code_simp
  have p: "list_all (plain_entry ascii_only) ?es" by code_simp
  have f: "filter (\<lambda>t. 10 < length t) (map snd ?es)
             = [ascii ''bcdefghijkl'', ascii ''3 years, not 2'', ascii ''fghijklmnop'']"
    by (simp add: ascii_def)
  have l: "ascii ''Suggestions:'' # map entry_line ?es
             = [ascii ''Suggestions:'', ascii ''- abcdefghij'', 8226 # ascii '' bcdefghijkl'',
                ascii ''1. cdefghijkl'', ascii ''12) 3 years, not 2'',
                8226 # ascii '' efghijklmn'', ascii ''- fghijklmnop'']"
    by (simp add: entry_line_def ascii_def)
  from suggestion_length_filter [of ascii_only "ascii ''Suggestions:''" ?es] h n p
  have "get_improvement_suggestions ascii_only (join_lines (ascii ''Suggestions:'' # map entry_line ?es))
          = [ascii ''bcdefghijkl'', ascii ''3 years, not 2'', ascii ''fghijklmnop'']"
    by (simp only: f) simp
  then have "get_improvement_suggestions ascii_only
        (join_lines [ascii ''Suggestions:'', ascii ''- abcdefghij'', 8226 # ascii '' bcdefghijkl'',
                     ascii ''1. cdefghijkl'', ascii ''12) 3 years, not 2'',
                     8226 # ascii '' efghijklmn'', ascii ''- fghijklmnop''])
        = [ascii ''bcdefghijkl'', ascii ''3 years, not 2'', ascii ''fghijklmnop'']"
    by (simp only: l)
  with h n p show ?thesis by blast
qed

text \<open>
  C5 as stated fails at an item of exactly 10 code points: it is not shorter than 10,
  and it is discarded (\<open>len(clean_suggestion) > 10\<close>) after each kind of marker.
\<close>

theorem suggestion_length_filter_counterexample:
  "\<not> length (ascii ''abcdefghij'') < 10
   \<and> ascii ''abcdefghij'' \<notin> set (get_improvement_suggestions ascii_only
        (join_lines [ascii ''RECOMMENDATIONS:'', ascii ''- abcdefghij'']))
   \<and> ascii ''abcdefghij'' \<notin> set (get_improvement_suggestions ascii_only
        (join_lines [ascii ''RECOMMENDATIONS:'', ascii ''1. abcdefghij'']))
   \<and> ascii ''abcdefghij'' \<notin> set (get_improvement_suggestions ascii_only
        (join_lines [ascii ''RECOMMENDATIONS:'', 8226 # ascii '' abcdefghij'']))"
  by code_simp

text \<open>
  The loop gathers nothing from lines without a header line, and nothing from lines
  none of which yields a suggestion when it stands alone inside the section.
\<close>

lemma suggestions_loop_no_header:
  "\<not> list_ex (suggestions_header U) ls \<Longrightarrow> suggestions_loop U False ls acc = acc"
  by (induction ls) simp_all

lemma suggestions_loop_no_item:
  "list_all (\<lambda>l. suggestions_loop U True [l] [] = []) ls \<Longrightarrow>
     suggestions_loop U b ls acc = acc"
proof (induction ls arbitrary: b acc)
  case Nil
  show ?case by simp
next
  case (Cons l ls)
  then have one: "suggestions_loop U True [l] [] = []"
    and rest: "list_all (\<lambda>l. suggestions_loop U True [l] [] = []) ls" by simp_all
  note ih = Cons.IH [OF rest]
  show ?case
  proof (cases "suggestions_header U l")
    case True
    then show ?thesis by (simp add: ih)
  next
    case H: False
    show ?thesis
    proof (cases b)
      case False
      with H show ?thesis by (simp add: ih)
    next
      case b: True
      show ?thesis
      proof (cases "starts_new_section U l")
        case True
        with H b show ?thesis by simp
      next
        case N: False
        show ?thesis
        proof (cases "strip U l \<noteq> []
                 \<and> (starts_with_any (strip U l) [45] \<or> starts_with_any (strip U l) [8226])")
          case B: True
          from one H N B
          have "\<not> (strip U (dropWhile (bullet_prefix U) (strip U l)) \<noteq> []
                  \<and> 10 < length (strip U (dropWhile (bullet_prefix U) (strip U l))))"
            by (auto simp: Let_def split: if_splits)
          with H N B b show ?thesis by (auto simp: ih Let_def)
        next
          case nB: False
          show ?thesis
          proof (cases "strip U l \<noteq> [] \<and> numbered_item U (strip U l)")
            case Q: True
            from one H N nB Q
            have "\<not> (strip U (sub_numbered_prefix U (strip U l)) \<noteq> []
                    \<and> 10 < length (strip U (sub_numbered_prefix U (strip U l))))"
              by (auto simp: Let_def split: if_splits)
            with H N nB Q b show ?thesis by (auto simp: ih Let_def)
          next
            case False
            with H N nB b show ?thesis by (auto simp: ih)
          qed
        qed
      qed
    qed
  qed
qed

text \<open>
  C9, amended. When the loop gathers no suggestion from a text that is not empty, the
  result is the fixed list of four fallback suggestions; so it is when no line is a
  header line, and when no line is a qualifying list item. The empty text is answered by
  the guard \<open>if not analysis\<close> with the one line
  \<open>No analysis available to extract suggestions\<close>.
\<close>

theorem suggestions_default:
  "(suggestions_loop U False (split_lines t) [] = [] \<longrightarrow>
      get_improvement_suggestions U t =
        (if t = [] then [ascii ''No analysis available to extract suggestions'']
         else fallback_suggestions))
   \<and> (t \<noteq> [] \<and> \<not> list_ex (suggestions_header U) (split_lines t) \<longrightarrow>
        get_improvement_suggestions U t = fallback_suggestions)
   \<and> (t \<noteq> [] \<and> list_all (\<lambda>l. suggestions_loop U True [l] [] = []) (split_lines t) \<longrightarrow>
        get_improvement_suggestions U t = fallback_suggestions)"
  by (simp add: get_improvement_suggestions_def suggestions_loop_no_header
        suggestions_loop_no_item)

text \<open>A text without any list gets the four fallback suggestions.\<close>

theorem suggestions_default_witness:
  "ascii ''Looks fine. No list here.'' \<noteq> []
   \<and> suggestions_loop ascii_only False (split_lines (ascii ''Looks fine. No list here.'')) [] = []
   \<and> \<not> list_ex (suggestions_header ascii_only) (split_lines (ascii ''Looks fine. No list here.''))
   \<and> list_all (\<lambda>l. suggestions_loop ascii_only True [l] [] = [])
         (split_lines (ascii ''Looks fine. No list here.''))
   \<and> get_improvement_suggestions ascii_only (ascii ''Looks fine. No list here.'')
       = fallback_suggestions"
proof -
  have a: "ascii ''Looks fine. No list here.'' \<noteq> []" by (simp add: ascii_def)
  have b: "suggestions_loop ascii_only False (split_lines (ascii ''Looks fine. No list here.'')) [] = []"
    by code_simp
  have c: "\<not> list_ex (suggestions_header ascii_only)
             (split_lines (ascii ''Looks fine. No list here.''))"
    by code_simp
  have d: "list_all (\<lambda>l. suggestions_loop ascii_only True [l] [] = [])
         (split_lines (ascii ''Looks fine. No list here.''))"
    by code_simp
  from suggestions_default [of ascii_only "ascii ''Looks fine. No list here.''"] a b
  have "get_improvement_suggestions ascii_only (ascii ''Looks fine. No list here.'')
       = fallback_suggestions" by simp
  with a b c d show ?thesis by blast
qed

text \<open>C9 as stated fails at the empty text: nothing is gathered, and the result is not
  the fallback list.\<close>

theorem suggestions_default_counterexample:
  "suggestions_loop ascii_only False (split_lines []) [] = []
   \<and> get_improvement_suggestions ascii_only [] \<noteq> fallback_suggestions"
  by (simp add: get_improvement_suggestions_def fallback_suggestions_def line_eval)


section \<open>Properties of section extraction\<close>

text \<open>
  Outside the section the loop passes over lines that do not name it; inside, it gathers
  the lines that are not blank and do not name the section, until a line starts a new
  section without naming this one.
\<close>

lemma section_loop_outside:
  "\<forall>l\<in>set xs. \<not> names_section U name l \<Longrightarrow>
     section_loop U name False (xs @ ys) acc = section_loop U name False ys acc"
  by (induction xs) simp_all

lemma section_loop_inside:
  "\<forall>l\<in>set xs. \<not> starts_new_section U l \<Longrightarrow>
     section_loop U name True (xs @ ys) acc =
       section_loop U name True ys
         (acc @ filter (\<lambda>l. \<not> names_section U name l \<and> strip U l \<noteq> []) xs)"
  by (induction xs arbitrary: acc) simp_all

lemma section_loop_tail:
  assumes "\<forall>l\<in>set body. \<not> starts_new_section U l"
    and "post = [] \<or> (starts_new_section U (hd post) \<and> \<not> names_section U name (hd post))"
  shows "section_loop U name True (body @ post) [] =
           filter (\<lambda>l. \<not> names_section U name l \<and> strip U l \<noteq> []) body"
proof (cases post)
  case Nil
  with section_loop_inside [OF assms(1), of name "[]" "[]"] show ?thesis by simp
next
  case (Cons p ps)
  with assms(2) have "starts_new_section U p" and "\<not> names_section U name p" by simp_all
  then have "section_loop U name True (p # ps) acc = acc" for acc by simp
  with Cons section_loop_inside [OF assms(1), of name post "[]"] show ?thesis by simp
qed

text \<open>
  C8, amended. Let a text consist of lines \<open>pre\<close>, the section named \<open>name\<close> (its
  header \<open>g\<close> and its lines \<open>gbody\<close>, none of which starts a new section), another
  section (its header \<open>r\<close>, which starts a new section, and its lines \<open>rbody\<close>) and
  lines \<open>post\<close> that are none or begin with a line that starts a new section. If no
  line of \<open>pre\<close>, of the other section or at the head of \<open>post\<close> names the section
  (holds \<open>name\<close>, case ignored, and a colon), then moving the other section before the
  named one does not change what \<open>extract_section\<close> returns for \<open>name\<close>.
\<close>

theorem extract_section_reorder:
  assumes header: "names_section U name g"
    and other: "\<forall>l\<in>set (pre @ r # rbody). \<not> names_section U name l"
    and top: "starts_new_section U r"
    and body: "\<forall>l\<in>set gbody. \<not> starts_new_section U l"
    and after: "post = [] \<or> (starts_new_section U (hd post) \<and> \<not> names_section U name (hd post))"
    and lines: "\<forall>l\<in>set (pre @ g # gbody @ r # rbody @ post). 10 \<notin> set l"
  shows "extract_section U (join_lines (pre @ r # rbody @ g # gbody @ post)) name
           = extract_section U (join_lines (pre @ g # gbody @ r # rbody @ post)) name"
proof -
  let ?keep = "filter (\<lambda>l. \<not> names_section U name l \<and> strip U l \<noteq> []) gbody"
  let ?orig = "pre @ g # gbody @ r # rbody @ post"
  let ?moved = "pre @ r # rbody @ g # gbody @ post"
  from header have g: "g \<noteq> []" by (auto simp: names_section_def)
  have so: "split_lines (join_lines ?orig) = ?orig"
    using lines by (intro split_join) simp_all
  have sm: "split_lines (join_lines ?moved) = ?moved"
    using lines by (intro split_join) auto
  have no: "join_lines ?orig \<noteq> []" using g by (intro join_lines_nonempty [of g]) simp_all
  have nm: "join_lines ?moved \<noteq> []" using g by (intro join_lines_nonempty [of g]) simp_all
  from other have p: "\<forall>l\<in>set pre. \<not> names_section U name l"
    and rn: "\<not> names_section U name r" by simp_all
  have "section_loop U name False ?orig [] = section_loop U name True (gbody @ r # rbody @ post) []"
    using section_loop_outside [OF p, of "g # gbody @ r # rbody @ post" "[]"] header by simp
  also have "\<dots> = ?keep"
    using body top rn by (intro section_loop_tail) simp_all
  finally have lo: "section_loop U name False ?orig [] = ?keep" .
  have "section_loop U name False ?moved [] = section_loop U name False (g # gbody @ post) []"
    using section_loop_outside [OF other, of "g # gbody @ post" "[]"] by simp
  also have "\<dots> = section_loop U name True (gbody @ post) []"
    using header by simp
  also have "\<dots> = ?keep"
    using body after by (rule section_loop_tail)
  finally have lm: "section_loop U name False ?moved [] = ?keep" .
  show ?thesis
    by (simp only: extract_section_def so sm lo lm no nm if_False)
qed


text \<open>On an analysis of four sections and a note, both orders give the one gap.\<close>

theorem extract_section_reorder_witness:
  "extract_section ascii_only
      (join_lines [ascii ''1. OVERALL MATCH: 78%'', ascii ''2. STRENGTHS:'', ascii ''- Python'',
                   ascii ''4. RECOMMENDATIONS:'', ascii ''- Add metrics'',
                   ascii ''3. GAPS & AREAS FOR IMPROVEMENT:'', ascii ''- Kubernetes'', [],
                   ascii ''Note: sample'']) (ascii ''GAPS'')
     = ascii ''- Kubernetes''
   \<and> extract_section ascii_only
      (join_lines [ascii ''1. OVERALL MATCH: 78%'', ascii ''2. STRENGTHS:'', ascii ''- Python'',
                   ascii ''3. GAPS & AREAS FOR IMPROVEMENT:'', ascii ''- Kubernetes'', [],
                   ascii ''4. RECOMMENDATIONS:'', ascii ''- Add metrics'',
                   ascii ''Note: sample'']) (ascii ''GAPS'')
     = ascii ''- Kubernetes''"
proof -
  let ?pre = "[ascii ''1. OVERALL MATCH: 78%'', ascii ''2. STRENGTHS:'', ascii ''- Python'']"
  let ?g = "ascii ''3. GAPS & AREAS FOR IMPROVEMENT:''"
  let ?gbody = "[ascii ''- Kubernetes'', []]"
  let ?r = "ascii ''4. RECOMMENDATIONS:''"
  let ?rbody = "[ascii ''- Add metrics'']"
  let ?post = "[ascii ''Note: sample'']"
  have header: "names_section ascii_only (ascii ''GAPS'') ?g" by code_simp
  have other: "\<forall>l\<in>set (?pre @ ?r # ?rbody). \<not> names_section ascii_only (ascii ''GAPS'') l"
    by code_simp
  have top: "starts_new_section ascii_only ?r" by code_simp
  have body: "\<forall>l\<in>set ?gbody. \<not> starts_new_section ascii_only l" by code_simp
  have after: "?post = [] \<or> (starts_new_section ascii_only (hd ?post)
                 \<and> \<not> names_section ascii_only (ascii ''GAPS'') (hd ?post))"
    by code_simp
  have lines: "\<forall>l\<in>set (?pre @ ?g # ?gbody @ ?r # ?rbody @ ?post). 10 \<notin> set l"
    by code_simp
  have orig: "extract_section ascii_only
      (join_lines (?pre @ ?g # ?gbody @ ?r # ?rbody @ ?post)) (ascii ''GAPS'')
     = ascii ''- Kubernetes''"
    by code_simp
  from extract_section_reorder [OF header other top body after lines] orig
  have "extract_section ascii_only
      (join_lines (?pre @ ?r # ?rbody @ ?g # ?gbody @ ?post)) (ascii ''GAPS'')
     = ascii ''- Kubernetes''"
    by (simp only:)
  with orig show ?thesis by (simp only: append.simps)
qed

text \<open>
  C8 as stated fails when a bullet of the moved section holds the word and a colon:
  with \<open>- Close gaps: take a course\<close> under RECOMMENDATIONS, the sections in the order
  GAPS, RECOMMENDATIONS give the one gap, and in the order RECOMMENDATIONS, GAPS the
  extraction starts at that bullet and returns a recommendation as well.
\<close>

theorem extract_section_reorder_counterexample:
  "extract_section ascii_only
      (join_lines [ascii ''GAPS:'', ascii ''- Learn Kubernetes'',
                   ascii ''RECOMMENDATIONS:'', ascii ''- Close gaps: take a course'',
                   ascii ''- Add metrics'']) (ascii ''GAPS'')
     = ascii ''- Learn Kubernetes''
   \<and> extract_section ascii_only
      (join_lines [ascii ''RECOMMENDATIONS:'', ascii ''- Close gaps: take a course'',
                   ascii ''- Add metrics'',
                   ascii ''GAPS:'', ascii ''- Learn Kubernetes'']) (ascii ''GAPS'')
     = join_lines [ascii ''- Add metrics'', ascii ''- Learn Kubernetes'']
   \<and> join_lines [ascii ''- Add metrics'', ascii ''- Learn Kubernetes'']
       \<noteq> ascii ''- Learn Kubernetes''"
  by code_simp

end
